theory Spec2Isabelle
  imports Complex_Main "HOL-Library.AList"
begin

section \<open>JavaScript numbers\<close>

text \<open>
  The pose pipeline of \<^verbatim>\<open>vision-ondevice.tsx\<close> computes with JavaScript numbers
  (IEEE-754 doubles). The source itself relies on the special values: the bounding-box
  loops start from \<^verbatim>\<open>Infinity\<close> and \<^verbatim>\<open>-Infinity\<close>, \<^verbatim>\<open>computeKeypointAreaJS\<close> tests
  \<^verbatim>\<open>isFinite\<close>, and the form analysis tests \<^verbatim>\<open>isNaN\<close>. A number is therefore modelled
  as a real or one of the three special values. A finite result of an operation is
  kept exact (rounding to 53 bits is not modelled, and the two zeros are identified);
  a result at or beyond the overflow threshold of round-to-nearest becomes an infinity,
  and the exponential underflows to zero below its threshold. Rounding to 53 bits is
  monotone and keeps \<open>0\<close> and \<open>1\<close>, so the statements below on the order of two results
  are given with \<open>\<le>\<close>: two exact results that differ may round to the same double.
  Narrowing to single precision, which a \<^verbatim>\<open>Float32Array\<close> does to every value stored
  in it, is modelled (\<open>Math_fround\<close> below).
\<close>

datatype jsnum = Fin real | PInf | NInf | NaN

definition OVF :: real where
  \<comment> \<open>the least magnitude that rounds to an infinity: \<open>2^1024 - 2^970\<close>\<close>
  "OVF = 2 ^ 1024 - 2 ^ 970"

definition rnd :: "real \<Rightarrow> jsnum" where
  "rnd r = (if OVF \<le> r then PInf else if r \<le> - OVF then NInf else Fin r)"

fun jneg :: "jsnum \<Rightarrow> jsnum" where
  "jneg (Fin a) = Fin (- a)"
| "jneg PInf = NInf"
| "jneg NInf = PInf"
| "jneg NaN = NaN"

fun jadd :: "jsnum \<Rightarrow> jsnum \<Rightarrow> jsnum" where
  "jadd (Fin a) (Fin b) = rnd (a + b)"
| "jadd NaN _ = NaN"
| "jadd _ NaN = NaN"
| "jadd PInf NInf = NaN"
| "jadd NInf PInf = NaN"
| "jadd PInf _ = PInf"
| "jadd _ PInf = PInf"
| "jadd NInf _ = NInf"
| "jadd _ NInf = NInf"

fun jsign :: "jsnum \<Rightarrow> int" where
  \<comment> \<open>the sign of a number that is not NaN; zero counts as positive in a division\<close>
  "jsign (Fin a) = (if a < 0 then - 1 else if a = 0 then 0 else 1)"
| "jsign PInf = 1"
| "jsign NInf = - 1"
| "jsign NaN = 0"

definition jinf :: "int \<Rightarrow> jsnum" where
  "jinf s = (if s < 0 then NInf else PInf)"

fun jmul :: "jsnum \<Rightarrow> jsnum \<Rightarrow> jsnum" where
  "jmul (Fin a) (Fin b) = rnd (a * b)"
| "jmul NaN _ = NaN"
| "jmul _ NaN = NaN"
| "jmul a b = (if jsign a * jsign b = 0 then NaN else jinf (jsign a * jsign b))"

fun jdiv :: "jsnum \<Rightarrow> jsnum \<Rightarrow> jsnum" where
  "jdiv (Fin a) (Fin b) =
     (if b = 0 then (if a = 0 then NaN else jinf (jsign (Fin a))) else rnd (a / b))"
| "jdiv NaN _ = NaN"
| "jdiv _ NaN = NaN"
| "jdiv (Fin a) _ = Fin 0"
| "jdiv a (Fin b) = jinf (jsign a * (if b < 0 then - 1 else 1))"
| "jdiv _ _ = NaN"

fun jless :: "jsnum \<Rightarrow> jsnum \<Rightarrow> bool" where
  \<comment> \<open>\<^verbatim>\<open>a < b\<close>; every comparison with NaN is false\<close>
  "jless (Fin a) (Fin b) = (a < b)"
| "jless (Fin a) PInf = True"
| "jless NInf (Fin b) = True"
| "jless NInf PInf = True"
| "jless _ _ = False"

fun jle :: "jsnum \<Rightarrow> jsnum \<Rightarrow> bool" where
  \<comment> \<open>\<^verbatim>\<open>a <= b\<close>\<close>
  "jle (Fin a) (Fin b) = (a \<le> b)"
| "jle (Fin a) PInf = True"
| "jle NInf (Fin b) = True"
| "jle NInf PInf = True"
| "jle PInf PInf = True"
| "jle NInf NInf = True"
| "jle _ _ = False"

instantiation jsnum :: "{plus, minus, uminus, times, inverse, ord}"
begin

definition plus_jsnum :: "jsnum \<Rightarrow> jsnum \<Rightarrow> jsnum" where
  "plus_jsnum a b = jadd a b"

definition minus_jsnum :: "jsnum \<Rightarrow> jsnum \<Rightarrow> jsnum" where
  "minus_jsnum a b = jadd a (jneg b)"

definition uminus_jsnum :: "jsnum \<Rightarrow> jsnum" where
  "uminus_jsnum a = jneg a"

definition times_jsnum :: "jsnum \<Rightarrow> jsnum \<Rightarrow> jsnum" where
  "times_jsnum a b = jmul a b"

definition divide_jsnum :: "jsnum \<Rightarrow> jsnum \<Rightarrow> jsnum" where
  "divide_jsnum a b = jdiv a b"

definition inverse_jsnum :: "jsnum \<Rightarrow> jsnum" where
  "inverse_jsnum a = jdiv (Fin 1) a"

definition less_jsnum :: "jsnum \<Rightarrow> jsnum \<Rightarrow> bool" where
  "less_jsnum a b = jless a b"

definition less_eq_jsnum :: "jsnum \<Rightarrow> jsnum \<Rightarrow> bool" where
  "less_eq_jsnum a b = jle a b"

instance ..

end

fun isNaN :: "jsnum \<Rightarrow> bool" where
  "isNaN NaN = True"
| "isNaN _ = False"

fun isFinite :: "jsnum \<Rightarrow> bool" where
  "isFinite (Fin a) = True"
| "isFinite _ = False"

definition Math_min :: "jsnum \<Rightarrow> jsnum \<Rightarrow> jsnum" where
  "Math_min a b = (if isNaN a \<or> isNaN b then NaN else if a < b then a else b)"

definition Math_max :: "jsnum \<Rightarrow> jsnum \<Rightarrow> jsnum" where
  "Math_max a b = (if isNaN a \<or> isNaN b then NaN else if a < b then b else a)"

fun Math_abs :: "jsnum \<Rightarrow> jsnum" where
  "Math_abs (Fin a) = Fin \<bar>a\<bar>"
| "Math_abs NaN = NaN"
| "Math_abs _ = PInf"

fun Math_sqrt :: "jsnum \<Rightarrow> jsnum" where
  "Math_sqrt (Fin a) = (if a < 0 then NaN else Fin (sqrt a))"
| "Math_sqrt PInf = PInf"
| "Math_sqrt _ = NaN"

definition EXP_UNDERFLOW :: real where
  \<comment> \<open>\<open>1075 ln 2\<close> as a double, \<open>745.13321910194110842\<close>: below its negative the exponential
      is less than half the least positive double and rounds to zero\<close>
  "EXP_UNDERFLOW = 74513321910194110842 / 10 ^ 17"

fun Math_exp :: "jsnum \<Rightarrow> jsnum" where
  "Math_exp (Fin a) = (if a < - EXP_UNDERFLOW then Fin 0 else rnd (exp a))"
| "Math_exp PInf = PInf"
| "Math_exp NInf = Fin 0"
| "Math_exp NaN = NaN"

definition atan2 :: "real \<Rightarrow> real \<Rightarrow> real" where
  \<comment> \<open>the angle of the point \<open>(x, y)\<close>, in \<open>(-pi, pi]\<close>\<close>
  "atan2 y x =
     (if 0 < x then arctan (y / x)
      else if x < 0 then (if 0 \<le> y then arctan (y / x) + pi else arctan (y / x) - pi)
      else if 0 < y then pi / 2
      else if y < 0 then - (pi / 2)
      else 0)"

fun Math_atan2 :: "jsnum \<Rightarrow> jsnum \<Rightarrow> jsnum" where
  "Math_atan2 (Fin b) (Fin a) = Fin (atan2 b a)"
| "Math_atan2 NaN _ = NaN"
| "Math_atan2 _ NaN = NaN"
| "Math_atan2 (Fin b) PInf = Fin 0"
| "Math_atan2 (Fin b) NInf = Fin (if b < 0 then - pi else pi)"
| "Math_atan2 PInf (Fin a) = Fin (pi / 2)"
| "Math_atan2 NInf (Fin a) = Fin (- (pi / 2))"
| "Math_atan2 PInf PInf = Fin (pi / 4)"
| "Math_atan2 PInf NInf = Fin (3 * pi / 4)"
| "Math_atan2 NInf PInf = Fin (- (pi / 4))"
| "Math_atan2 NInf NInf = Fin (- (3 * pi / 4))"

text \<open>
  Single precision. A value stored in a \<^verbatim>\<open>Float32Array\<close> is rounded to the nearest
  number with a significand of 24 bits, ties to the even significand. \<open>binade32 r\<close> is
  the exponent \<open>e\<close> of the binade \<open>[2^e, 2^(e+1))\<close> that holds \<open>\<bar>r\<bar>\<close>, from \<open>-126\<close> (which
  also serves the subnormal numbers) to \<open>127\<close>; the numbers of that binade are the
  multiples of \<open>2^(e-23)\<close>. A result of magnitude \<open>2^128\<close> is an infinity.
\<close>

definition roundTiesToEven :: "real \<Rightarrow> int" where
  "roundTiesToEven q =
     (let f = \<lfloor>q\<rfloor>; d = q - of_int f
      in if d < 1 / 2 then f else if 1 / 2 < d then f + 1 else if even f then f else f + 1)"

definition binade32 :: "real \<Rightarrow> int" where
  "binade32 r =
     (case List.find (\<lambda>e. 2 powi e \<le> \<bar>r\<bar>) (rev [- 126..127]) of
        Some e \<Rightarrow> e
      | None \<Rightarrow> - 126)"

definition fround :: "real \<Rightarrow> jsnum" where
  "fround r =
     (let ulp = 2 powi (binade32 r - 23);
          v = of_int (roundTiesToEven (r / ulp)) * ulp
      in if 2 ^ 128 \<le> \<bar>v\<bar> then (if v < 0 then NInf else PInf) else Fin v)"

fun Math_fround :: "jsnum \<Rightarrow> jsnum" where
  \<comment> \<open>\<^verbatim>\<open>Math.fround\<close>, the conversion that a store into a \<^verbatim>\<open>Float32Array\<close> applies\<close>
  "Math_fround (Fin r) = fround r"
| "Math_fround v = v"

section \<open>Object keypoint similarity\<close>

text \<open>
  A keypoint is \<^verbatim>\<open>{ x: number; y: number; score: number }\<close>; a pose is an array of them.
  The fields are named \<open>xc\<close> and \<open>yc\<close> here, \<open>x\<close> and \<open>y\<close> being needed as variables.
\<close>

record keypoint =
  xc :: jsnum
  yc :: jsnum
  score :: jsnum

definition OKS_KEYPOINT_THRESHOLD :: jsnum where
  "OKS_KEYPOINT_THRESHOLD = Fin (3 / 10)"

definition OKS_KEYPOINT_FALLOFF :: "real list" where
  "OKS_KEYPOINT_FALLOFF =
     [26 / 1000, 25 / 1000, 25 / 1000, 35 / 1000, 35 / 1000, 79 / 1000, 79 / 1000,
      72 / 1000, 72 / 1000, 62 / 1000, 62 / 1000, 107 / 1000, 107 / 1000, 87 / 1000,
      87 / 1000, 89 / 1000, 89 / 1000]"

definition OKS_MIN_KEYPOINTS :: nat where
  "OKS_MIN_KEYPOINTS = 4"

definition falloff :: "nat \<Rightarrow> jsnum" where
  \<comment> \<open>\<^verbatim>\<open>OKS_KEYPOINT_FALLOFF[i] || 0.089\<close>: an index past the table reads \<^verbatim>\<open>undefined\<close>\<close>
  "falloff i =
     (if i < length OKS_KEYPOINT_FALLOFF then Fin (OKS_KEYPOINT_FALLOFF ! i)
      else Fin (89 / 1000))"

text \<open>
  \<^verbatim>\<open>computeKeypointArea\<close> (the worklet). The loop state is
  \<open>(minX, maxX, minY, maxY, validCount)\<close>.
\<close>

definition areaStep ::
  "keypoint \<Rightarrow> jsnum \<times> jsnum \<times> jsnum \<times> jsnum \<times> nat \<Rightarrow> jsnum \<times> jsnum \<times> jsnum \<times> jsnum \<times> nat"
where
  "areaStep k st =
     (case st of (minX, maxX, minY, maxY, validCount) \<Rightarrow>
        if OKS_KEYPOINT_THRESHOLD < score k
        then (Math_min minX (xc k), Math_max maxX (xc k),
              Math_min minY (yc k), Math_max maxY (yc k), Suc validCount)
        else st)"

definition computeKeypointArea :: "keypoint list \<Rightarrow> jsnum" where
  "computeKeypointArea keypoints =
     (case fold areaStep keypoints (PInf, NInf, PInf, NInf, 0) of
        (minX, maxX, minY, maxY, validCount) \<Rightarrow>
          if validCount = 0 then Fin (1 / 10 ^ 6)
          else
            let width = Math_max (maxX - minX) (Fin (1 / 10 ^ 6));
                height = Math_max (maxY - minY) (Fin (1 / 10 ^ 6))
            in width * height)"

text \<open>\<^verbatim>\<open>computeKeypointAreaJS\<close>. The loop state is \<open>(minX, maxX, minY, maxY)\<close>.\<close>

definition areaStepJS ::
  "keypoint \<Rightarrow> jsnum \<times> jsnum \<times> jsnum \<times> jsnum \<Rightarrow> jsnum \<times> jsnum \<times> jsnum \<times> jsnum"
where
  "areaStepJS kp st =
     (case st of (minX, maxX, minY, maxY) \<Rightarrow>
        if OKS_KEYPOINT_THRESHOLD \<le> score kp
        then ((if xc kp < minX then xc kp else minX),
              (if maxX < xc kp then xc kp else maxX),
              (if yc kp < minY then yc kp else minY),
              (if maxY < yc kp then yc kp else maxY))
        else st)"

definition computeKeypointAreaJS :: "keypoint list \<Rightarrow> jsnum" where
  "computeKeypointAreaJS keypoints =
     (case fold areaStepJS keypoints (PInf, NInf, PInf, NInf) of
        (minX, maxX, minY, maxY) \<Rightarrow>
          if \<not> isFinite minX \<or> \<not> isFinite maxX \<or> \<not> isFinite minY \<or> \<not> isFinite maxY
          then Fin 1
          else
            let width = maxX - minX;
                height = maxY - minY
            in width * height)"

text \<open>
  The loop of \<^verbatim>\<open>computeOKSSimilarity\<close> and of \<^verbatim>\<open>computeOKSSimilarityJS\<close> (the two bodies
  are the same text). \<open>i\<close> is the index of the heads of the two arrays, the pair is
  \<open>(oksSum, validKeypointCount)\<close>.
\<close>

definition keypointSimilarity :: "jsnum \<Rightarrow> nat \<Rightarrow> keypoint \<Rightarrow> keypoint \<Rightarrow> jsnum" where
  "keypointSimilarity area i kp1 kp2 =
     (let dx = xc kp1 - xc kp2;
          dy = yc kp1 - yc kp2;
          dSquared = dx * dx + dy * dy;
          sigma = falloff i;
          x = Fin 2 * sigma
      in Math_exp (- dSquared / (Fin 2 * area * x * x)))"

fun oksLoop ::
  "jsnum \<Rightarrow> nat \<Rightarrow> keypoint list \<Rightarrow> keypoint list \<Rightarrow> jsnum \<times> nat \<Rightarrow> jsnum \<times> nat"
where
  "oksLoop area i (kp1 # person1) (kp2 # person2) (oksSum, validKeypointCount) =
     (if score kp1 < OKS_KEYPOINT_THRESHOLD \<or> score kp2 < OKS_KEYPOINT_THRESHOLD
      then oksLoop area (Suc i) person1 person2 (oksSum, validKeypointCount)
      else oksLoop area (Suc i) person1 person2
             (oksSum + keypointSimilarity area i kp1 kp2, Suc validKeypointCount))"
| "oksLoop area i _ _ acc = acc"

definition computeOKSSimilarity :: "keypoint list \<Rightarrow> keypoint list \<Rightarrow> jsnum" where
  "computeOKSSimilarity person1Keypoints person2Keypoints =
     (if length person1Keypoints \<noteq> length person2Keypoints then Fin 0
      else
        let area = computeKeypointArea person2Keypoints + Fin (1 / 10 ^ 6)
        in case oksLoop area 0 person1Keypoints person2Keypoints (Fin 0, 0) of
             (oksSum, validKeypointCount) \<Rightarrow>
               if validKeypointCount < OKS_MIN_KEYPOINTS then Fin 0
               else oksSum / Fin (real validKeypointCount))"

definition computeOKSSimilarityJS :: "keypoint list \<Rightarrow> keypoint list \<Rightarrow> jsnum" where
  "computeOKSSimilarityJS person1Keypoints person2Keypoints =
     (if length person1Keypoints \<noteq> length person2Keypoints then Fin 0
      else
        let area = computeKeypointAreaJS person2Keypoints + Fin (1 / 10 ^ 6)
        in case oksLoop area 0 person1Keypoints person2Keypoints (Fin 0, 0) of
             (oksSum, validKeypointCount) \<Rightarrow>
               if validKeypointCount < OKS_MIN_KEYPOINTS then Fin 0
               else oksSum / Fin (real validKeypointCount))"

section \<open>Temporal smoothing filter\<close>

definition DETECTION_THRESHOLD :: jsnum where
  "DETECTION_THRESHOLD = Fin (3 / 10)"

definition CAMERA_FPS :: jsnum where
  "CAMERA_FPS = Fin 30"

definition FRAME_SKIP_INTERVAL :: jsnum where
  "FRAME_SKIP_INTERVAL = Fin 2"

definition MIN_CUTOFF :: jsnum where
  "MIN_CUTOFF = Fin (15 / 100)"

definition BETA :: jsnum where
  "BETA = Fin (7 / 1000)"

definition DERIVATE_CUTOFF :: jsnum where
  "DERIVATE_CUTOFF = Fin 1"

definition Math_PI :: jsnum where
  "Math_PI = Fin pi"

definition oneEuroFilter :: "jsnum \<Rightarrow> jsnum \<Rightarrow> jsnum \<Rightarrow> jsnum \<Rightarrow> jsnum \<Rightarrow> jsnum \<times> jsnum" where
  \<comment> \<open>the result is \<open>(filtered, dValue)\<close>\<close>
  "oneEuroFilter v lastValue lastDValue alpha dAlpha =
     (let dValue = v - lastValue;
          smoothedDValue = dAlpha * dValue + (Fin 1 - dAlpha) * lastDValue;
          filtered = alpha * v + (Fin 1 - alpha) * lastValue
      in (filtered, smoothedDValue))"

definition smoothingFactor :: "jsnum \<Rightarrow> jsnum \<Rightarrow> jsnum" where
  "smoothingFactor cutoff fps =
     (let tau = Fin 1 / (Fin 2 * Math_PI * cutoff);
          te = Fin 1 / fps
      in Fin 1 / (Fin 1 + tau / te))"

text \<open>
  An entry of \<^verbatim>\<open>lastKeypoints\<close>: \<^verbatim>\<open>{ x, y, score, dx, dy }\<close>. The dictionary is keyed by
  \<^verbatim>\<open>kp_0\<close>, ..., \<^verbatim>\<open>kp_16\<close>; the model keys it by the index.
\<close>

record filterState =
  last_x :: jsnum
  last_y :: jsnum
  last_score :: jsnum
  last_dx :: jsnum
  last_dy :: jsnum

text \<open>
  A value passed where the signature says \<^verbatim>\<open>number\<close>: the function tests
  \<^verbatim>\<open>typeof screenWidth !== 'number'\<close> at run time.
\<close>

datatype jsvalue = Number jsnum | NotANumberType

text \<open>
  The body of the loop \<^verbatim>\<open>for (let i = 0; i < 17; i++)\<close>, on the output buffer and the
  dictionary. The result of the inner case is \<open>(smoothedX, smoothedY, smoothedScore, dx, dy)\<close>;
  \<open>last'\<close> is the source's \<^verbatim>\<open>last\<close>. The output buffer is a \<^verbatim>\<open>Float32Array\<close>: the three
  stores narrow their values to single precision.
\<close>

definition smoothStep ::
  "jsnum list \<Rightarrow> jsnum \<Rightarrow> jsnum \<Rightarrow> nat \<Rightarrow> jsnum list \<times> (nat \<rightharpoonup> filterState)
   \<Rightarrow> jsnum list \<times> (nat \<rightharpoonup> filterState)"
where
  "smoothStep keypoints screenWidth screenHeight i st =
     (case st of (smoothedKeypoints, lastKeypoints) \<Rightarrow>
        let baseIndex = i * 3;
            fps = CAMERA_FPS / FRAME_SKIP_INTERVAL;
            MOVEMENT_THRESHOLD = screenWidth * Fin (1 / 100)
        in
          if length keypoints \<le> baseIndex + 2 then st
          else
            let rawX = keypoints ! (baseIndex + 1) * screenWidth;
                rawY = keypoints ! baseIndex * screenHeight;
                rawScore = keypoints ! (baseIndex + 2);
                unfiltered = (rawX, rawY, rawScore, Fin 0, Fin 0);
                (smoothedX, smoothedY, smoothedScore, dx, dy) =
                  (case lastKeypoints i of
                     None \<Rightarrow> unfiltered
                   | Some last' \<Rightarrow>
                       if DETECTION_THRESHOLD < rawScore then
                         (let deltaX = Math_abs (rawX - last_x last');
                              deltaY = Math_abs (rawY - last_y last')
                          in
                            if deltaX < MOVEMENT_THRESHOLD \<and> deltaY < MOVEMENT_THRESHOLD
                            then (last_x last', last_y last', last_score last',
                                  last_dx last', last_dy last')
                            else
                              let vx = rawX - last_x last';
                                  vy = rawY - last_y last';
                                  speed = Math_sqrt (vx * vx + vy * vy);
                                  adaptiveCutoff = MIN_CUTOFF + BETA * speed;
                                  alpha = smoothingFactor adaptiveCutoff fps;
                                  dAlpha = smoothingFactor DERIVATE_CUTOFF fps;
                                  resultX = oneEuroFilter rawX (last_x last') (last_dx last')
                                              alpha dAlpha;
                                  resultY = oneEuroFilter rawY (last_y last') (last_dy last')
                                              alpha dAlpha
                              in (fst resultX, fst resultY,
                                  Fin (7 / 10) * rawScore + Fin (3 / 10) * last_score last',
                                  snd resultX, snd resultY))
                       else unfiltered);
                lastKeypoints' =
                  lastKeypoints(i \<mapsto>
                    \<lparr>last_x = smoothedX, last_y = smoothedY, last_score = smoothedScore,
                     last_dx = dx, last_dy = dy\<rparr>)
            in
              if baseIndex + 2 < length smoothedKeypoints
              then (smoothedKeypoints
                      [baseIndex := Math_fround (smoothedY / screenHeight),
                       baseIndex + 1 := Math_fround (smoothedX / screenWidth),
                       baseIndex + 2 := Math_fround smoothedScore],
                    lastKeypoints')
              else (smoothedKeypoints, lastKeypoints'))"

text \<open>
  \<^verbatim>\<open>smoothKeypoints\<close>. The buffer is a typed array (\<^verbatim>\<open>Int8Array\<close>, \<^verbatim>\<open>Uint8Array\<close>,
  \<^verbatim>\<open>Float32Array\<close> or \<^verbatim>\<open>Float64Array\<close>), given by its values, or absent (\<open>None\<close>) for the
  test \<^verbatim>\<open>!keypoints\<close>. The result is the returned \<^verbatim>\<open>Float32Array\<close> and the dictionary as
  the call leaves it. \<^verbatim>\<open>new Float32Array(n)\<close> is \<open>n\<close> zeros; \<^verbatim>\<open>new Float32Array(keypoints)\<close>
  is a copy of the values of \<^verbatim>\<open>keypoints\<close>, each narrowed to single precision.
\<close>

definition Float32Array_from :: "jsnum list \<Rightarrow> jsnum list" where
  "Float32Array_from xs = map Math_fround xs"

definition smoothKeypoints ::
  "jsnum list option \<Rightarrow> (nat \<rightharpoonup> filterState) \<Rightarrow> jsvalue \<Rightarrow> jsvalue
   \<Rightarrow> jsnum list \<times> (nat \<rightharpoonup> filterState)"
where
  "smoothKeypoints keypointsArg lastKeypoints screenWidthArg screenHeightArg =
     (case keypointsArg of
        None \<Rightarrow> (replicate 51 (Fin 0), lastKeypoints)
      | Some keypoints \<Rightarrow>
          if length keypoints < 51 then (replicate 51 (Fin 0), lastKeypoints)
          else
            (case (screenWidthArg, screenHeightArg) of
               (Number screenWidth, Number screenHeight) \<Rightarrow>
                 if screenWidth \<le> Fin 0 \<or> screenHeight \<le> Fin 0
                 then (Float32Array_from keypoints, lastKeypoints)
                 else fold (smoothStep keypoints screenWidth screenHeight) [0..<17]
                        (replicate (length keypoints) (Fin 0), lastKeypoints)
             | _ \<Rightarrow> (Float32Array_from keypoints, lastKeypoints)))"

section \<open>Form analysis\<close>

text \<open>
  The argument \<^verbatim>\<open>liftType: string | string[] | undefined\<close> and the optional
  \<^verbatim>\<open>userHeight?: number\<close> (\<open>None\<close> when it is not passed).
\<close>

datatype liftTypeArg = Undefined | Str string | StrArray "string list"

text \<open>
  The feedback messages, one constructor for each string literal of the source (the
  pictograph that starts each string is left out):
  \<^item> \<open>SelectLiftType\<close>: "Select a lift type";
  \<^item> squat: \<open>ExcellentDepthCalibrated h\<close>: "Excellent depth (\<open>h\<close>cm calibrated)",
    \<open>ExcellentDepth\<close>: "Excellent depth - below parallel", \<open>AtParallel\<close>: "At parallel - try
    slightly deeper", \<open>TooShallow\<close>: "Too shallow - squat deeper", \<open>KneesCavingIn\<close>: "Knees
    caving in - push knees out", \<open>WatchKneeTracking\<close>, \<open>GoodKneeTracking\<close>, \<open>ChestUp\<close>: "Chest
    up! Torso too horizontal", \<open>KeepChestUpright\<close>, \<open>GoodTorsoPosition\<close>, \<open>VeryDeepSquat\<close>:
    "Very deep squat - check mobility", \<open>GoodSquatDepth\<close>, \<open>SquatDeeperFullROM\<close>,
    \<open>ShowFullBody\<close>: "Position yourself to show full body";
  \<^item> bench: \<open>ElbowsTooFlared\<close>, \<open>ElbowsCouldTuck\<close>, \<open>GoodElbowAngle\<close>, \<open>BarPathNotVertical\<close>,
    \<open>KeepBarPathStraight\<close>, \<open>ExcellentBarPath\<close>, \<open>WristsBent\<close>, \<open>UnevenArms\<close>,
    \<open>SymmetricArms\<close>, \<open>ShowUpperBody\<close>: "Position camera to show upper body";
  \<^item> deadlift: \<open>HipsTooLow\<close>, \<open>HipsTooHigh\<close>, \<open>GoodHipPosition\<close>, \<open>BackTooHorizontal\<close>,
    \<open>LiftChestSlightly\<close>, \<open>TooVertical\<close>, \<open>GoodBackAngle\<close>, \<open>FullLockout\<close>,
    \<open>ShouldersBehindBar\<close>, \<open>GoodShoulderPosition\<close>, \<open>ShowFullBodyFromSide\<close>.
\<close>

datatype message =
    SelectLiftType
  | ExcellentDepthCalibrated jsnum | ExcellentDepth | AtParallel | TooShallow
  | KneesCavingIn | WatchKneeTracking | GoodKneeTracking
  | ChestUp | KeepChestUpright | GoodTorsoPosition
  | VeryDeepSquat | GoodSquatDepth | SquatDeeperFullROM
  | ShowFullBody
  | ElbowsTooFlared | ElbowsCouldTuck | GoodElbowAngle
  | BarPathNotVertical | KeepBarPathStraight | ExcellentBarPath
  | WristsBent | UnevenArms | SymmetricArms
  | ShowUpperBody
  | HipsTooLow | HipsTooHigh | GoodHipPosition
  | BackTooHorizontal | LiftChestSlightly | TooVertical | GoodBackAngle
  | FullLockout | ShouldersBehindBar | GoodShoulderPosition
  | ShowFullBodyFromSide

record liftResult =
  feedback :: "message list"
  formScore :: int
  liftType :: string

definition toLowerCase :: "string \<Rightarrow> string" where
  \<comment> \<open>\<^verbatim>\<open>String.prototype.toLowerCase\<close> on the letters \<open>A\<close> to \<open>Z\<close>\<close>
  "toLowerCase str =
     map (\<lambda>c. if 65 \<le> (of_char c :: nat) \<and> (of_char c :: nat) \<le> 90
              then char_of (of_char c + 32 :: nat) else c) str"

definition truthy :: "jsnum option \<Rightarrow> bool" where
  \<comment> \<open>a number in a condition: \<^verbatim>\<open>undefined\<close>, zero and NaN count as false\<close>
  "truthy v = (case v of None \<Rightarrow> False | Some n \<Rightarrow> \<not> isNaN n \<and> n \<noteq> Fin 0)"

definition element :: "jsnum list \<Rightarrow> nat \<Rightarrow> jsnum" where
  \<comment> \<open>reading a typed array past its end gives \<^verbatim>\<open>undefined\<close>, NaN in arithmetic and comparisons\<close>
  "element keypoints i = (if i < length keypoints then keypoints ! i else NaN)"

definition getPoint :: "jsnum list \<Rightarrow> jsnum \<Rightarrow> jsnum \<Rightarrow> nat \<Rightarrow> keypoint" where
  "getPoint keypoints screenWidth screenHeight index =
     \<lparr>xc = element keypoints (index * 3 + 1) * screenWidth,
      yc = element keypoints (index * 3) * screenHeight,
      score = element keypoints (index * 3 + 2)\<rparr>"

definition pow2 :: "jsnum \<Rightarrow> jsnum" where
  \<comment> \<open>\<^verbatim>\<open>a ** 2\<close> and \<^verbatim>\<open>Math.pow(a, 2)\<close>\<close>
  "pow2 a = a * a"

definition calculateAngle ::
  "'a keypoint_scheme \<Rightarrow> 'b keypoint_scheme \<Rightarrow> 'c keypoint_scheme \<Rightarrow> jsnum option"
where
  \<comment> \<open>\<open>None\<close> is the source's \<^verbatim>\<open>null\<close>\<close>
  "calculateAngle p1 p2 p3 =
     (if isNaN (xc p1) \<or> isNaN (yc p1) \<or> isNaN (xc p2) \<or> isNaN (yc p2)
         \<or> isNaN (xc p3) \<or> isNaN (yc p3)
      then None
      else
        let dist12 = Math_sqrt (pow2 (xc p2 - xc p1) + pow2 (yc p2 - yc p1));
            dist23 = Math_sqrt (pow2 (xc p3 - xc p2) + pow2 (yc p3 - yc p2))
        in
          if dist12 < Fin 1 \<or> dist23 < Fin 1 then None
          else
            let radians = Math_atan2 (yc p3 - yc p2) (xc p3 - xc p2)
                          - Math_atan2 (yc p1 - yc p2) (xc p1 - xc p2);
                angle = Math_abs (radians * Fin 180 / Math_PI)
            in Some (if Fin 180 < angle then Fin 360 - angle else angle))"

definition calculateDistance :: "'a keypoint_scheme \<Rightarrow> 'b keypoint_scheme \<Rightarrow> jsnum option" where
  "calculateDistance p1 p2 =
     (if isNaN (xc p1) \<or> isNaN (yc p1) \<or> isNaN (xc p2) \<or> isNaN (yc p2) then None
      else Some (Math_sqrt (pow2 (xc p2 - xc p1) + pow2 (yc p2 - yc p1))))"

datatype side = left | right | avg | none

record bilateralPoint = keypoint +
  side :: side

definition getBilateralPoint :: "keypoint \<Rightarrow> keypoint \<Rightarrow> bilateralPoint" where
  "getBilateralPoint leftPoint rightPoint =
     (let leftOk = DETECTION_THRESHOLD < score leftPoint;
          rightOk = DETECTION_THRESHOLD < score rightPoint
      in
        if leftOk \<and> rightOk then
          (let totalScore = score leftPoint + score rightPoint
           in \<lparr>xc = (xc leftPoint * score leftPoint + xc rightPoint * score rightPoint)
                     / totalScore,
               yc = (yc leftPoint * score leftPoint + yc rightPoint * score rightPoint)
                     / totalScore,
               score = Math_max (score leftPoint) (score rightPoint),
               side = avg\<rparr>)
        else if leftOk then keypoint.extend leftPoint (bilateralPoint.fields left)
        else if rightOk then keypoint.extend rightPoint (bilateralPoint.fields right)
        else \<lparr>xc = Fin 0, yc = Fin 0, score = Fin 0, side = none\<rparr>)"

text \<open>
  The analysis mutates \<^verbatim>\<open>feedback\<close> and \<^verbatim>\<open>formScore\<close>; the model threads the pair
  \<open>(feedback, formScore)\<close>. \<open>report m d\<close> is \<^verbatim>\<open>feedback.push(m); formScore -= d\<close>.
\<close>

type_synonym analysis = "message list \<times> int"

definition report :: "message \<Rightarrow> int \<Rightarrow> analysis \<Rightarrow> analysis" where
  "report m d st = (case st of (fb, sc) \<Rightarrow> (fb @ [m], sc - d))"

text \<open>The squat branch, one definition for each check, in the order of the source.\<close>

definition squatDepth ::
  "bilateralPoint \<Rightarrow> bilateralPoint \<Rightarrow> bilateralPoint \<Rightarrow> jsnum option \<Rightarrow> analysis \<Rightarrow> analysis"
where
  "squatDepth shoulder hip knee userHeight st =
     (case (calculateDistance hip knee, calculateDistance shoulder hip) of
        (Some hipToKneeDistance, Some shoulderToHipDistance) \<Rightarrow>
          let depthRatio = yc hip - yc knee;
              torsoLength = Math_abs (yc shoulder - yc hip);
              heightAdjustment =
                (case userHeight of
                   Some h \<Rightarrow> if truthy userHeight \<and> Fin 0 < h then h / Fin 170 else Fin 1
                 | None \<Rightarrow> Fin 1);
              depthThreshold = torsoLength * Fin (1 / 10) * heightAdjustment
          in
            if depthRatio < - depthThreshold then
              report
                (case userHeight of
                   Some h \<Rightarrow> if truthy userHeight then ExcellentDepthCalibrated h
                             else ExcellentDepth
                 | None \<Rightarrow> ExcellentDepth)
                0 st
            else if depthRatio < depthThreshold * Fin (1 / 2) then report AtParallel 5 st
            else report TooShallow 20 st
      | _ \<Rightarrow> st)"

definition squatKnees ::
  "keypoint \<Rightarrow> keypoint \<Rightarrow> keypoint \<Rightarrow> keypoint \<Rightarrow> analysis \<Rightarrow> analysis"
where
  "squatKnees leftKnee rightKnee leftAnkle rightAnkle st =
     (if DETECTION_THRESHOLD < score leftKnee \<and> DETECTION_THRESHOLD < score rightKnee
         \<and> DETECTION_THRESHOLD < score leftAnkle \<and> DETECTION_THRESHOLD < score rightAnkle
      then
        let kneeWidth = Math_abs (xc leftKnee - xc rightKnee);
            ankleWidth = Math_abs (xc leftAnkle - xc rightAnkle)
        in
          if kneeWidth < ankleWidth * Fin (75 / 100) then report KneesCavingIn 15 st
          else if kneeWidth < ankleWidth * Fin (9 / 10) then report WatchKneeTracking 5 st
          else report GoodKneeTracking 0 st
      else st)"

definition squatTorso ::
  "bilateralPoint \<Rightarrow> bilateralPoint \<Rightarrow> bilateralPoint \<Rightarrow> analysis \<Rightarrow> analysis"
where
  "squatTorso shoulder hip knee st =
     (case calculateAngle shoulder hip knee of
        Some hipAngle \<Rightarrow>
          if hipAngle < Fin 50 then report ChestUp 15 st
          else if hipAngle < Fin 70 then report KeepChestUpright 5 st
          else report GoodTorsoPosition 0 st
      | None \<Rightarrow> st)"

definition squatKneeAngle ::
  "bilateralPoint \<Rightarrow> bilateralPoint \<Rightarrow> bilateralPoint \<Rightarrow> analysis \<Rightarrow> analysis"
where
  "squatKneeAngle hip knee ankle st =
     (case calculateAngle hip knee ankle of
        Some kneeAngle \<Rightarrow>
          if kneeAngle < Fin 60 then report VeryDeepSquat 0 st
          else if kneeAngle < Fin 90 then report GoodSquatDepth 0 st
          else report SquatDeeperFullROM 10 st
      | None \<Rightarrow> st)"

definition squatAnalysis ::
  "bilateralPoint \<Rightarrow> bilateralPoint \<Rightarrow> bilateralPoint \<Rightarrow> bilateralPoint
   \<Rightarrow> keypoint \<Rightarrow> keypoint \<Rightarrow> keypoint \<Rightarrow> keypoint \<Rightarrow> jsnum option \<Rightarrow> analysis \<Rightarrow> analysis"
where
  "squatAnalysis shoulder hip knee ankle leftKnee rightKnee leftAnkle rightAnkle userHeight st =
     (if side hip \<noteq> none \<and> side knee \<noteq> none \<and> side ankle \<noteq> none \<and> side shoulder \<noteq> none
      then
        squatKneeAngle hip knee ankle
          (squatTorso shoulder hip knee
            (squatKnees leftKnee rightKnee leftAnkle rightAnkle
              (squatDepth shoulder hip knee userHeight st)))
      else report ShowFullBody 30 st)"

text \<open>The bench branch.\<close>

definition benchElbow ::
  "bilateralPoint \<Rightarrow> bilateralPoint \<Rightarrow> bilateralPoint \<Rightarrow> analysis \<Rightarrow> analysis"
where
  "benchElbow shoulder elbow wrist st =
     (case calculateAngle shoulder elbow wrist of
        Some elbowAngle \<Rightarrow>
          if elbowAngle < Fin 60 then report ElbowsTooFlared 15 st
          else if Fin 95 < elbowAngle then report ElbowsCouldTuck 5 st
          else report GoodElbowAngle 0 st
      | None \<Rightarrow> st)"

definition benchBarPath ::
  "bilateralPoint \<Rightarrow> bilateralPoint \<Rightarrow> keypoint \<Rightarrow> keypoint \<Rightarrow> analysis \<Rightarrow> analysis"
where
  \<comment> \<open>the two literal points \<^verbatim>\<open>{x: wrist.x, y: 0}\<close> and \<^verbatim>\<open>{x: shoulder.x, y: 0}\<close> have no score\<close>
  "benchBarPath shoulder wrist leftShoulder rightShoulder st =
     (case calculateDistance \<lparr>xc = xc wrist, yc = Fin 0, score = Fin 0\<rparr>
             \<lparr>xc = xc shoulder, yc = Fin 0, score = Fin 0\<rparr> of
        Some barPathDeviation \<Rightarrow>
          let shoulderWidth = Math_abs (xc leftShoulder - xc rightShoulder);
              deviationRatio = barPathDeviation / Math_max shoulderWidth (Fin 1)
          in
            if Fin (3 / 10) < deviationRatio then report BarPathNotVertical 15 st
            else if Fin (15 / 100) < deviationRatio then report KeepBarPathStraight 5 st
            else report ExcellentBarPath 0 st
      | None \<Rightarrow> st)"

definition benchWrist ::
  "bilateralPoint \<Rightarrow> bilateralPoint \<Rightarrow> bilateralPoint \<Rightarrow> analysis \<Rightarrow> analysis"
where
  "benchWrist shoulder elbow wrist st =
     (case calculateDistance wrist elbow of
        Some wristElbowDistance \<Rightarrow>
          (case calculateDistance elbow shoulder of
             Some elbowShoulderDistance \<Rightarrow>
               let wristBendRatio = wristElbowDistance / elbowShoulderDistance
               in if wristBendRatio < Fin (3 / 10) then report WristsBent 10 st else st
           | None \<Rightarrow> st)
      | None \<Rightarrow> st)"

definition benchSymmetry ::
  "keypoint \<Rightarrow> keypoint \<Rightarrow> keypoint \<Rightarrow> keypoint \<Rightarrow> keypoint \<Rightarrow> keypoint
   \<Rightarrow> analysis \<Rightarrow> analysis"
where
  \<comment> \<open>\<^verbatim>\<open>MIN_CONFIDENCE\<close> is \<^verbatim>\<open>DETECTION_THRESHOLD\<close>\<close>
  "benchSymmetry leftShoulder rightShoulder leftElbow rightElbow leftWrist rightWrist st =
     (if DETECTION_THRESHOLD < score leftElbow \<and> DETECTION_THRESHOLD < score rightElbow
         \<and> DETECTION_THRESHOLD < score leftWrist \<and> DETECTION_THRESHOLD < score rightWrist
      then
        (case (calculateAngle leftShoulder leftElbow leftWrist,
               calculateAngle rightShoulder rightElbow rightWrist) of
           (Some leftArmAngle, Some rightArmAngle) \<Rightarrow>
             let asymmetry = Math_abs (leftArmAngle - rightArmAngle)
             in if Fin 15 < asymmetry then report UnevenArms 10 st
                else report SymmetricArms 0 st
         | _ \<Rightarrow> st)
      else st)"

definition benchAnalysis ::
  "bilateralPoint \<Rightarrow> keypoint \<Rightarrow> keypoint \<Rightarrow> keypoint \<Rightarrow> keypoint \<Rightarrow> keypoint \<Rightarrow> keypoint
   \<Rightarrow> analysis \<Rightarrow> analysis"
where
  "benchAnalysis shoulder leftShoulder rightShoulder leftElbow rightElbow leftWrist rightWrist st =
     (let elbow = getBilateralPoint leftElbow rightElbow;
          wrist = getBilateralPoint leftWrist rightWrist
      in
        if side shoulder \<noteq> none \<and> side elbow \<noteq> none \<and> side wrist \<noteq> none
        then
          benchSymmetry leftShoulder rightShoulder leftElbow rightElbow leftWrist rightWrist
            (benchWrist shoulder elbow wrist
              (benchBarPath shoulder wrist leftShoulder rightShoulder
                (benchElbow shoulder elbow wrist st)))
        else report ShowUpperBody 30 st)"

text \<open>The deadlift branch.\<close>

definition deadliftHips ::
  "bilateralPoint \<Rightarrow> bilateralPoint \<Rightarrow> bilateralPoint \<Rightarrow> analysis \<Rightarrow> analysis"
where
  "deadliftHips shoulder hip knee st =
     (case (calculateDistance hip knee, calculateDistance shoulder hip) of
        (Some hipKneeDistance, Some shoulderHipDistance) \<Rightarrow>
          let hipKneeRatio = yc hip - yc knee;
              torsoLength = Math_abs (yc shoulder - yc hip)
          in
            if hipKneeRatio < (- torsoLength) * Fin (1 / 10) then report HipsTooLow 20 st
            else if torsoLength * Fin (3 / 10) < hipKneeRatio then report HipsTooHigh 5 st
            else report GoodHipPosition 0 st
      | _ \<Rightarrow> st)"

definition deadliftBack :: "bilateralPoint \<Rightarrow> bilateralPoint \<Rightarrow> analysis \<Rightarrow> analysis" where
  "deadliftBack shoulder hip st =
     (let hipShoulderVertical = Math_abs (yc shoulder - yc hip);
          hipShoulderHorizontal = Math_abs (xc shoulder - xc hip)
      in
        if Fin 0 < hipShoulderVertical \<and> Fin 0 \<le> hipShoulderHorizontal then
          (let backAngleDegrees =
                 Math_atan2 hipShoulderVertical hipShoulderHorizontal * Fin 180 / Math_PI
           in
             if backAngleDegrees < Fin 30 then report BackTooHorizontal 25 st
             else if backAngleDegrees < Fin 40 then report LiftChestSlightly 10 st
             else if Fin 75 < backAngleDegrees then report TooVertical 10 st
             else report GoodBackAngle 0 st)
        else st)"

definition deadliftLockout ::
  "bilateralPoint \<Rightarrow> bilateralPoint \<Rightarrow> jsnum \<Rightarrow> analysis \<Rightarrow> analysis"
where
  "deadliftLockout shoulder hip screenHeight st =
     (let lockoutAlignment = Math_abs (xc hip - xc shoulder);
          torsoLength = Math_abs (yc shoulder - yc hip)
      in
        if lockoutAlignment < torsoLength * Fin (15 / 100)
           \<and> screenHeight * Fin (2 / 10) < torsoLength
        then report FullLockout 0 st
        else st)"

definition deadliftShoulders ::
  "bilateralPoint \<Rightarrow> bilateralPoint \<Rightarrow> keypoint \<Rightarrow> keypoint \<Rightarrow> analysis \<Rightarrow> analysis"
where
  "deadliftShoulders shoulder knee leftKnee rightKnee st =
     (let shoulderKneeX = xc shoulder - xc knee;
          kneeWidth = Math_abs (xc leftKnee - xc rightKnee)
      in
        if shoulderKneeX < (- kneeWidth) * Fin (1 / 2) then report ShouldersBehindBar 10 st
        else report GoodShoulderPosition 0 st)"

definition deadliftAnalysis ::
  "bilateralPoint \<Rightarrow> bilateralPoint \<Rightarrow> bilateralPoint \<Rightarrow> bilateralPoint
   \<Rightarrow> keypoint \<Rightarrow> keypoint \<Rightarrow> jsnum \<Rightarrow> analysis \<Rightarrow> analysis"
where
  "deadliftAnalysis shoulder hip knee ankle leftKnee rightKnee screenHeight st =
     (if side hip \<noteq> none \<and> side shoulder \<noteq> none \<and> side knee \<noteq> none \<and> side ankle \<noteq> none
      then
        deadliftShoulders shoulder knee leftKnee rightKnee
          (deadliftLockout shoulder hip screenHeight
            (deadliftBack shoulder hip
              (deadliftHips shoulder hip knee st)))
      else report ShowFullBodyFromSide 30 st)"

text \<open>
  The analysis proper (from \<^verbatim>\<open>getPoint\<close> to the end of the three branches): the pair
  \<open>(feedback, formScore)\<close> as it stands before the last statements of the function.
\<close>

definition liftAnalysis ::
  "jsnum list \<Rightarrow> string \<Rightarrow> jsnum \<Rightarrow> jsnum \<Rightarrow> jsnum option \<Rightarrow> analysis"
where
  "liftAnalysis keypoints lift screenWidth screenHeight userHeight =
     (let leftShoulder = getPoint keypoints screenWidth screenHeight 5;
          rightShoulder = getPoint keypoints screenWidth screenHeight 6;
          leftElbow = getPoint keypoints screenWidth screenHeight 7;
          rightElbow = getPoint keypoints screenWidth screenHeight 8;
          leftWrist = getPoint keypoints screenWidth screenHeight 9;
          rightWrist = getPoint keypoints screenWidth screenHeight 10;
          leftHip = getPoint keypoints screenWidth screenHeight 11;
          rightHip = getPoint keypoints screenWidth screenHeight 12;
          leftKnee = getPoint keypoints screenWidth screenHeight 13;
          rightKnee = getPoint keypoints screenWidth screenHeight 14;
          leftAnkle = getPoint keypoints screenWidth screenHeight 15;
          rightAnkle = getPoint keypoints screenWidth screenHeight 16;
          shoulder = getBilateralPoint leftShoulder rightShoulder;
          hip = getBilateralPoint leftHip rightHip;
          knee = getBilateralPoint leftKnee rightKnee;
          ankle = getBilateralPoint leftAnkle rightAnkle
      in
        if toLowerCase lift = ''squat'' then
          squatAnalysis shoulder hip knee ankle leftKnee rightKnee leftAnkle rightAnkle
            userHeight ([], 100)
        else if toLowerCase lift = ''bench'' then
          benchAnalysis shoulder leftShoulder rightShoulder leftElbow rightElbow
            leftWrist rightWrist ([], 100)
        else if toLowerCase lift = ''deadlift'' then
          deadliftAnalysis shoulder hip knee ankle leftKnee rightKnee screenHeight ([], 100)
        else ([], 100))"

text \<open>
  The last statements: \<^verbatim>\<open>formScore = Math.max(0, formScore)\<close> and the returned object,
  with \<^verbatim>\<open>feedback.slice(0, 4)\<close>.
\<close>

definition finishAnalysis :: "analysis \<Rightarrow> string \<Rightarrow> liftResult" where
  "finishAnalysis st lift =
     (case st of (fb, sc) \<Rightarrow> \<lparr>feedback = take 4 fb, formScore = max 0 sc, liftType = lift\<rparr>)"

definition analyzeLiftForm ::
  "jsnum list \<Rightarrow> liftTypeArg \<Rightarrow> jsnum \<Rightarrow> jsnum \<Rightarrow> jsnum option \<Rightarrow> jsnum option \<Rightarrow> liftResult"
where
  "analyzeLiftForm keypoints liftTypeArg screenWidth screenHeight userHeight userWeight =
     (let noLiftType = \<lparr>feedback = [SelectLiftType], formScore = 0, liftType = ''unknown''\<rparr>
      in case liftTypeArg of
           Undefined \<Rightarrow> noLiftType
         | StrArray _ \<Rightarrow> noLiftType
         | Str lift \<Rightarrow>
             if lift = [] then noLiftType
             else finishAnalysis
                    (liftAnalysis keypoints lift screenWidth screenHeight userHeight) lift)"

section \<open>Identity tracker\<close>

text \<open>
  \<^verbatim>\<open>interface TrackedPerson { id; lastSeen; keypoints }\<close>. Identifiers are integers
  (\<open>-1\<close> is the source's "no track" value), time stamps are finite millisecond
  values. The field \<^verbatim>\<open>id\<close> is named \<open>person_id\<close> here.
\<close>

record TrackedPerson =
  person_id :: int
  lastSeen :: real
  keypoints :: "keypoint list"

definition TRACKING_MIN_SIMILARITY :: jsnum where
  "TRACKING_MIN_SIMILARITY = Fin (15 / 100)"

definition TRACKING_MAX_AGE :: real where
  "TRACKING_MAX_AGE = 1000"

definition TRACKING_MAX_PERSONS :: nat where
  "TRACKING_MAX_PERSONS = 18"

text \<open>
  The class \<^verbatim>\<open>TrackingManager\<close> of the integration tests. A JavaScript \<^verbatim>\<open>Map\<close> iterates
  in insertion order, so \<^verbatim>\<open>trackedPersons\<close> is an association list in that order:
  \<^verbatim>\<open>get\<close> is \<^const>\<open>map_of\<close>, \<^verbatim>\<open>set\<close> is \<^const>\<open>AList.update\<close> (a present key keeps its
  place, a new key goes last), \<^verbatim>\<open>values()\<close> is \<open>map snd\<close>.
\<close>

record TrackingManager =
  trackedPersons :: "(int \<times> TrackedPerson) list"
  nextPersonId :: int
  frameHistory :: "(real \<times> nat) list"

definition newTrackingManager :: TrackingManager where
  "newTrackingManager = \<lparr>trackedPersons = [], nextPersonId = 0, frameHistory = []\<rparr>"

definition getActiveTracks :: "(int \<times> TrackedPerson) list \<Rightarrow> real \<Rightarrow> TrackedPerson list" where
  "getActiveTracks persons currentTime =
     filter (\<lambda>track. currentTime - lastSeen track < TRACKING_MAX_AGE) (map snd persons)"

text \<open>
  The inner loop over \<^verbatim>\<open>activeTracks\<close>, on the pair \<open>(bestTrackId, bestSimilarity)\<close>.
  \<^verbatim>\<open>activeTracks\<close> holds the track objects themselves; an object that a detection of
  this frame has updated is in \<^verbatim>\<open>matched\<close> and skipped, so that the keypoints read
  here are always those the object had when the frame began.
\<close>

definition matchStep ::
  "keypoint list \<Rightarrow> int set \<Rightarrow> TrackedPerson \<Rightarrow> int \<times> jsnum \<Rightarrow> int \<times> jsnum"
where
  "matchStep detectedKeypoints matched track best =
     (case best of (bestTrackId, bestSimilarity) \<Rightarrow>
        if person_id track \<in> matched then best
        else
          let similarity = computeOKSSimilarityJS detectedKeypoints (keypoints track)
          in if bestSimilarity < similarity then (person_id track, similarity) else best)"

definition findBestTrack ::
  "TrackedPerson list \<Rightarrow> keypoint list \<Rightarrow> int set \<Rightarrow> int \<times> jsnum"
where
  "findBestTrack activeTracks detectedKeypoints matched =
     fold (matchStep detectedKeypoints matched) activeTracks (- 1, TRACKING_MIN_SIMILARITY)"

text \<open>The body of the loop over the detections, on the manager and \<^verbatim>\<open>matched\<close>.\<close>

definition detectStep ::
  "real \<Rightarrow> TrackedPerson list \<Rightarrow> keypoint list \<Rightarrow> TrackingManager \<times> int set
   \<Rightarrow> TrackingManager \<times> int set"
where
  "detectStep currentTime activeTracks detectedKeypoints st =
     (case st of (tm, matched) \<Rightarrow>
        case findBestTrack activeTracks detectedKeypoints matched of
          (bestTrackId, bestSimilarity) \<Rightarrow>
            if 0 \<le> bestTrackId then
              (case map_of (trackedPersons tm) bestTrackId of
                 Some track \<Rightarrow>
                   (tm\<lparr>trackedPersons :=
                         AList.update bestTrackId
                           (track\<lparr>keypoints := detectedKeypoints, lastSeen := currentTime\<rparr>)
                           (trackedPersons tm)\<rparr>,
                    insert bestTrackId matched)
               | None \<Rightarrow> st)
            else if length activeTracks < TRACKING_MAX_PERSONS then
              (let newId = nextPersonId tm
               in (tm\<lparr>nextPersonId := newId + 1,
                       trackedPersons :=
                         AList.update newId
                           \<lparr>person_id = newId, lastSeen = currentTime,
                            keypoints = detectedKeypoints\<rparr>
                           (trackedPersons tm)\<rparr>,
                   matched))
            else st)"

definition ageOut :: "real \<Rightarrow> (int \<times> TrackedPerson) list \<Rightarrow> (int \<times> TrackedPerson) list" where
  \<comment> \<open>the sweep deletes every entry with \<^verbatim>\<open>currentTime - track.lastSeen >= TRACKING_MAX_AGE\<close>\<close>
  "ageOut currentTime persons =
     filter (\<lambda>(i, track). \<not> TRACKING_MAX_AGE \<le> currentTime - lastSeen track) persons"

definition procesFrame :: "TrackingManager \<Rightarrow> keypoint list list \<Rightarrow> real \<Rightarrow> TrackingManager" where
  "procesFrame tm currentKeypoints timestamp =
     (let currentTime = timestamp;
          activeTracks = getActiveTracks (trackedPersons tm) currentTime;
          tm1 = fst (fold (detectStep currentTime activeTracks) currentKeypoints (tm, {}));
          tm2 = tm1\<lparr>trackedPersons := ageOut currentTime (trackedPersons tm1)\<rparr>
      in tm2\<lparr>frameHistory :=
                frameHistory tm2 @ [(currentTime, length (trackedPersons tm2))]\<rparr>)"

definition getTracks :: "TrackingManager \<Rightarrow> (int \<times> TrackedPerson) list" where
  "getTracks tm = trackedPersons tm"

definition reset :: "TrackingManager \<Rightarrow> TrackingManager" where
  "reset tm = \<lparr>trackedPersons = [], nextPersonId = 0, frameHistory = []\<rparr>"

text \<open>A run of the manager: the frames, oldest first, each a list of detections and a time.\<close>

definition runFrames :: "TrackingManager \<Rightarrow> (keypoint list list \<times> real) list \<Rightarrow> TrackingManager" where
  "runFrames tm frames = foldl (\<lambda>t (dets, now). procesFrame t dets now) tm frames"

text \<open>
  The tracking effect of the screen (\<^verbatim>\<open>vision-ondevice.tsx\<close>), from \<^verbatim>\<open>Date.now()\<close> on:
  one detection \<^verbatim>\<open>full17Keypoints\<close> per call, on \<^verbatim>\<open>trackedPersonsRef\<close> and
  \<^verbatim>\<open>nextPersonIdRef\<close>.
\<close>

definition trackingEffect ::
  "(int \<times> TrackedPerson) list \<times> int \<Rightarrow> keypoint list \<Rightarrow> real
   \<Rightarrow> (int \<times> TrackedPerson) list \<times> int"
where
  "trackingEffect refs full17Keypoints currentTime =
     (case refs of (persons, nextId) \<Rightarrow>
        let activeTracks = getActiveTracks persons currentTime;
            bestTrackId = fst (findBestTrack activeTracks full17Keypoints {});
            (persons1, nextId1) =
              (if 0 \<le> bestTrackId then
                 (case map_of persons bestTrackId of
                    Some track \<Rightarrow>
                      (AList.update bestTrackId
                         (track\<lparr>keypoints := full17Keypoints, lastSeen := currentTime\<rparr>)
                         persons,
                       nextId)
                  | None \<Rightarrow> (persons, nextId))
               else if length activeTracks < TRACKING_MAX_PERSONS then
                 (AList.update nextId
                    \<lparr>person_id = nextId, lastSeen = currentTime,
                     keypoints = full17Keypoints\<rparr>
                    persons,
                  nextId + 1)
               else (persons, nextId))
        in (ageOut currentTime persons1, nextId1))"

section \<open>Inputs used in the examples\<close>

definition finitePose :: "(real \<times> real \<times> real) list \<Rightarrow> keypoint list" where
  \<comment> \<open>a pose of finite numbers, from its triples \<open>(x, y, score)\<close>\<close>
  "finitePose ps = map (\<lambda>(a, b, c). \<lparr>xc = Fin a, yc = Fin b, score = Fin c\<rparr>) ps"

definition zeroPose :: "keypoint list" where
  \<comment> \<open>\<^verbatim>\<open>Array(17).fill(null).map(() => ({ x: 0, y: 0, score: 0 }))\<close>\<close>
  "zeroPose = replicate 17 \<lparr>xc = Fin 0, yc = Fin 0, score = Fin 0\<rparr>"

definition poseA :: "keypoint list" where
  \<comment> \<open>four confident keypoints, the corners of a box of 100 by 100\<close>
  "poseA = finitePose [(100, 100, 9 / 10), (200, 100, 9 / 10), (100, 200, 9 / 10),
                       (200, 200, 9 / 10)]"

definition poseB :: "keypoint list" where
  \<comment> \<open>\<^const>\<open>poseA\<close> with its last keypoint 5 further out: a box of 105 by 100\<close>
  "poseB = finitePose [(100, 100, 9 / 10), (200, 100, 9 / 10), (100, 200, 9 / 10),
                       (205, 200, 9 / 10)]"

definition hugeCoord :: real where
  \<comment> \<open>\<^verbatim>\<open>1e200\<close>, a finite double whose square is not\<close>
  "hugeCoord = 10 ^ 200"

definition hugeA :: "keypoint list" where
  "hugeA = finitePose [(hugeCoord, 0, 9 / 10), (hugeCoord, hugeCoord, 9 / 10),
                       (0, 0, 9 / 10), (0, 0, 9 / 10)]"

definition hugeB :: "keypoint list" where
  \<comment> \<open>\<^const>\<open>hugeA\<close> with its first keypoint at the origin\<close>
  "hugeB = finitePose [(0, 0, 9 / 10), (hugeCoord, hugeCoord, 9 / 10),
                       (0, 0, 9 / 10), (0, 0, 9 / 10)]"

definition translateBy :: "real \<Rightarrow> real \<Rightarrow> (real \<times> real \<times> real) list \<Rightarrow> (real \<times> real \<times> real) list" where
  \<comment> \<open>every keypoint moved by the vector \<open>(u, v)\<close>, the scores unchanged\<close>
  "translateBy u v ps = map (\<lambda>(a, b, c). (a + u, b + v, c)) ps"

definition poseA_triples :: "(real \<times> real \<times> real) list" where
  "poseA_triples = [(100, 100, 9 / 10), (200, 100, 9 / 10), (100, 200, 9 / 10),
                    (200, 200, 9 / 10)]"


definition farTriples :: "nat \<Rightarrow> (real \<times> real \<times> real) list" where
  \<comment> \<open>\<^verbatim>\<open>createStationaryPerson(50 + i * 1000, 50 + i * 1000)\<close> of the tests, with score \<open>0.9\<close>\<close>
  "farTriples i =
     map (\<lambda>j. (50 + 1000 * real i + 5 * real j, 50 + 1000 * real i + 5 * real j, 9 / 10))
       [0..<17]"

definition farPerson :: "nat \<Rightarrow> keypoint list" where
  "farPerson i = finitePose (farTriples i)"

section \<open>Notions used in the statements and proofs\<close>

definition maxCoordinate :: real where
  \<comment> \<open>a bound on coordinates under which no intermediate result of the similarity overflows\<close>
  "maxCoordinate = 10 ^ 150"

definition coordsWithin :: "real \<Rightarrow> (real \<times> real \<times> real) list \<Rightarrow> bool" where
  "coordsWithin m ps = list_all (\<lambda>(a, b, c). \<bar>a\<bar> \<le> m \<and> \<bar>b\<bar> \<le> m) ps"

definition boundedKp :: "real \<Rightarrow> keypoint \<Rightarrow> bool" where
  "boundedKp m k =
     (case (xc k, yc k) of (Fin a, Fin b) \<Rightarrow> \<bar>a\<bar> \<le> m \<and> \<bar>b\<bar> \<le> m | _ \<Rightarrow> False)"

definition areaStateJS_ok :: "real \<Rightarrow> jsnum \<times> jsnum \<times> jsnum \<times> jsnum \<Rightarrow> bool" where
  \<comment> \<open>the state of the loop of \<^const>\<open>computeKeypointAreaJS\<close> on bounded keypoints\<close>
  "areaStateJS_ok m st =
     (case st of
        (Fin a, Fin b, Fin c, Fin d) \<Rightarrow>
          a \<le> b \<and> c \<le> d \<and> \<bar>a\<bar> \<le> m \<and> \<bar>b\<bar> \<le> m \<and> \<bar>c\<bar> \<le> m \<and> \<bar>d\<bar> \<le> m
      | (PInf, NInf, PInf, NInf) \<Rightarrow> True
      | _ \<Rightarrow> False)"


definition posInf :: "jsnum \<Rightarrow> bool" where
  \<comment> \<open>a positive number or \<open>+Infinity\<close>\<close>
  "posInf v = (case v of Fin r \<Rightarrow> 0 < r | PInf \<Rightarrow> True | _ \<Rightarrow> False)"

definition BIG :: real where
  \<comment> \<open>a magnitude below the overflow threshold\<close>
  "BIG = 10 ^ 307"

definition finiteKp :: "keypoint \<Rightarrow> bool" where
  "finiteKp k = (isFinite (xc k) \<and> isFinite (yc k) \<and> isFinite (score k))"

definition areaState_ok :: "jsnum \<times> jsnum \<times> jsnum \<times> jsnum \<times> nat \<Rightarrow> bool" where
  \<comment> \<open>the state of the loop of \<^const>\<open>computeKeypointArea\<close> on finite keypoints: untouched, or four finite bounds\<close>
  "areaState_ok st =
     (case st of (minX, maxX, minY, maxY, n) \<Rightarrow>
        (n = 0 \<and> minX = PInf \<and> maxX = NInf \<and> minY = PInf \<and> maxY = NInf)
        \<or> (isFinite minX \<and> isFinite maxX \<and> isFinite minY \<and> isFinite maxY))"

definition unitRange :: "jsnum \<Rightarrow> bool" where
  \<comment> \<open>a number within \<open>[0, 1]\<close>\<close>
  "unitRange v = (case v of Fin e \<Rightarrow> 0 \<le> e \<and> e \<le> 1 | _ \<Rightarrow> False)"

definition areaState_bounded :: "real \<Rightarrow> jsnum \<times> jsnum \<times> jsnum \<times> jsnum \<times> nat \<Rightarrow> bool" where
  \<comment> \<open>the state of the loop of \<^const>\<open>computeKeypointArea\<close> on bounded keypoints\<close>
  "areaState_bounded m st =
     (case st of
        (Fin a, Fin b, Fin c, Fin d, n) \<Rightarrow> \<bar>a\<bar> \<le> m \<and> \<bar>b\<bar> \<le> m \<and> \<bar>c\<bar> \<le> m \<and> \<bar>d\<bar> \<le> m
      | (PInf, NInf, PInf, NInf, n) \<Rightarrow> n = 0
      | _ \<Rightarrow> False)"

definition expTerm :: "real \<Rightarrow> real \<Rightarrow> real" where
  \<comment> \<open>the value of \<^verbatim>\<open>Math.exp(-d / c)\<close> for a squared distance \<open>d\<close> and a positive \<open>c\<close>\<close>
  "expTerm c d = (if EXP_UNDERFLOW < d / c then 0 else exp (- d / c))"

definition notAbove :: "real \<Rightarrow> real \<Rightarrow> bool" where
  \<comment> \<open>\<open>s2\<close> is not negative and at most \<open>s1\<close>\<close>
  "notAbove s1 s2 = (0 \<le> s2 \<and> s2 \<le> s1)"

definition trackIds :: "TrackingManager \<Rightarrow> int list" where
  \<comment> \<open>the keys of the registry, in insertion order\<close>
  "trackIds tm = map fst (trackedPersons tm)"

definition trackerInv :: "TrackingManager \<Rightarrow> bool" where
  \<comment> \<open>keys increase in insertion order, every track sits under its own id, below the counter\<close>
  "trackerInv tm =
     (sorted_wrt (<) (trackIds tm)
      \<and> list_all (\<lambda>(i, track). person_id track = i \<and> i < nextPersonId tm) (trackedPersons tm))"

fun freshTracks :: "int \<Rightarrow> real \<Rightarrow> keypoint list list \<Rightarrow> (int \<times> TrackedPerson) list" where
  \<comment> \<open>one new track for each detection, with consecutive ids from \<open>n\<close> on\<close>
  "freshTracks n now [] = []"
| "freshTracks n now (d # ds) =
     (n, \<lparr>person_id = n, lastSeen = now, keypoints = d\<rparr>) # freshTracks (n + 1) now ds"

section \<open>Arithmetic of the number model\<close>

lemmas jsnum_arith = plus_jsnum_def minus_jsnum_def uminus_jsnum_def times_jsnum_def
  divide_jsnum_def less_jsnum_def less_eq_jsnum_def

lemma jless_imp_jle: "jless a b \<Longrightarrow> jle a b"
  by (cases a; cases b) simp_all

lemma BIG_lt_OVF: "BIG < OVF"
  unfolding OVF_def BIG_def by simp

lemma BIG_ge: "1 \<le> BIG" "2 ^ 32 \<le> BIG"
  unfolding BIG_def by simp_all

lemma EXP_UNDERFLOW_facts: "0 < EXP_UNDERFLOW" "EXP_UNDERFLOW < 746"
  unfolding EXP_UNDERFLOW_def by simp_all

lemma OVF_pos: "0 < OVF"
  using BIG_lt_OVF BIG_ge(1) by linarith

lemma rnd_Fin: "- OVF < r \<Longrightarrow> r < OVF \<Longrightarrow> rnd r = Fin r"
  by (simp add: rnd_def)

lemma rnd_small: "\<bar>r\<bar> \<le> BIG \<Longrightarrow> rnd r = Fin r"
  using BIG_lt_OVF by (intro rnd_Fin) linarith+

lemma rnd_0 [simp]: "rnd 0 = Fin 0"
  using BIG_ge(1) by (intro rnd_small) simp

lemma rnd_1 [simp]: "rnd 1 = Fin 1"
  using BIG_ge(1) by (intro rnd_small) simp

lemma posInf_simps [simp]:
  "posInf (Fin r) = (0 < r)" "posInf PInf" "\<not> posInf NInf" "\<not> posInf NaN"
  by (simp_all add: posInf_def)

lemma posInf_rnd: "0 < r \<Longrightarrow> posInf (rnd r)"
  using OVF_pos by (simp add: rnd_def)

lemma posInf_mul: "posInf a \<Longrightarrow> posInf b \<Longrightarrow> posInf (a * b)"
  by (cases a; cases b) (simp_all add: jsnum_arith posInf_rnd jinf_def)

lemma posInf_add_Fin: "posInf a \<Longrightarrow> 0 \<le> e \<Longrightarrow> posInf (a + Fin e)"
  by (cases a) (simp_all add: jsnum_arith posInf_rnd)

lemma Math_max_posInf: "\<not> isNaN v \<Longrightarrow> 0 < e \<Longrightarrow> posInf (Math_max v (Fin e))"
  by (cases v) (simp_all add: Math_max_def jsnum_arith)

lemma zero_div_posInf: "posInf d \<Longrightarrow> Fin 0 / d = Fin 0"
  by (cases d) (simp_all add: jsnum_arith)

lemma sub_Fin_not_NaN: "\<not> isNaN (Fin a - Fin b)"
  by (simp add: jsnum_arith rnd_def)

lemma isFinite_iff: "isFinite v = (\<exists>r. v = Fin r)"
  by (cases v) simp_all

lemma Math_min_Fin: "isFinite b \<Longrightarrow> isFinite a \<or> a = PInf \<Longrightarrow> isFinite (Math_min a b)"
  by (cases a; cases b) (simp_all add: Math_min_def jsnum_arith)

lemma Math_max_Fin: "isFinite b \<Longrightarrow> isFinite a \<or> a = NInf \<Longrightarrow> isFinite (Math_max a b)"
  by (cases a; cases b) (simp_all add: Math_max_def jsnum_arith)

section \<open>The falloff table and the area of a finite pose\<close>

lemma falloff_table: "\<forall>r\<in>set OKS_KEYPOINT_FALLOFF. 25 / 1000 \<le> r \<and> r \<le> 107 / 1000"
  by (simp add: OKS_KEYPOINT_FALLOFF_def)

lemma falloff_pos: "\<exists>r. falloff i = Fin r \<and> 25 / 1000 \<le> r \<and> r \<le> 107 / 1000"
proof (cases "i < length OKS_KEYPOINT_FALLOFF")
  case True
  then have "OKS_KEYPOINT_FALLOFF ! i \<in> set OKS_KEYPOINT_FALLOFF" by simp
  with falloff_table True show ?thesis
    unfolding falloff_def by auto
next
  case False
  then show ?thesis
    unfolding falloff_def by (intro exI[of _ "89 / 1000"]) simp
qed

lemma denominator_posInf:
  assumes "posInf area"
  shows "posInf (Fin 2 * area * (Fin 2 * falloff i) * (Fin 2 * falloff i))"
proof -
  obtain r where r: "falloff i = Fin r" "25 / 1000 \<le> r" "r \<le> 107 / 1000"
    using falloff_pos by blast
  have x: "Fin 2 * falloff i = Fin (2 * r)"
    using r BIG_ge(1) by (simp add: jsnum_arith rnd_small)
  have px: "posInf (Fin (2 * r))" using r by simp
  have "posInf (Fin 2 * area)"
    using assms by (intro posInf_mul) simp_all
  then have "posInf (Fin 2 * area * Fin (2 * r))"
    using px by (rule posInf_mul)
  then show ?thesis
    unfolding x using px by (rule posInf_mul)
qed

lemma finitePose_finiteKp: "k \<in> set (finitePose ps) \<Longrightarrow> finiteKp k"
  by (auto simp: finitePose_def finiteKp_def)

lemma areaStep_ok: "finiteKp k \<Longrightarrow> areaState_ok st \<Longrightarrow> areaState_ok (areaStep k st)"
  by (cases st) (auto simp: areaState_ok_def areaStep_def finiteKp_def Math_min_Fin Math_max_Fin)

lemma fold_areaStep_ok:
  "\<forall>k\<in>set ks. finiteKp k \<Longrightarrow> areaState_ok st \<Longrightarrow> areaState_ok (fold areaStep ks st)"
  by (induction ks arbitrary: st) (simp_all add: areaStep_ok)

lemma computeKeypointArea_posInf:
  assumes "\<forall>k\<in>set ks. finiteKp k"
  shows "posInf (computeKeypointArea ks)"
proof -
  obtain minX maxX minY maxY n
    where st: "fold areaStep ks (PInf, NInf, PInf, NInf, 0) = (minX, maxX, minY, maxY, n)"
    by (metis prod_cases5)
  have "areaState_ok (fold areaStep ks (PInf, NInf, PInf, NInf, 0))"
    using assms by (intro fold_areaStep_ok) (simp_all add: areaState_ok_def)
  then consider "n = 0" | "isFinite minX" "isFinite maxX" "isFinite minY" "isFinite maxY"
    unfolding st areaState_ok_def by auto
  then show ?thesis
  proof cases
    case 1
    then show ?thesis by (simp add: computeKeypointArea_def st)
  next
    case 2
    then obtain a b c d where v: "minX = Fin a" "maxX = Fin b" "minY = Fin c" "maxY = Fin d"
      by (auto simp: isFinite_iff)
    have "posInf (Math_max (maxX - minX) (Fin (1 / 10 ^ 6))
                  * Math_max (maxY - minY) (Fin (1 / 10 ^ 6)))"
      unfolding v by (intro posInf_mul Math_max_posInf sub_Fin_not_NaN) simp_all
    then show ?thesis
      by (cases "n = 0") (simp_all add: computeKeypointArea_def st Let_def)
  qed
qed

section \<open>The area fallback\<close>

lemma fold_areaStep_none:
  "\<forall>k\<in>set ks. \<not> OKS_KEYPOINT_THRESHOLD \<le> score k \<Longrightarrow> fold areaStep ks st = st"
  by (induction ks arbitrary: st) (auto simp: areaStep_def jsnum_arith dest: jless_imp_jle)

lemma fold_areaStepJS_none:
  "\<forall>k\<in>set ks. \<not> OKS_KEYPOINT_THRESHOLD \<le> score k \<Longrightarrow> fold areaStepJS ks st = st"
  by (induction ks arbitrary: st) (auto simp: areaStepJS_def)

lemma oksLoop_left_below:
  "\<forall>k\<in>set p1. score k < OKS_KEYPOINT_THRESHOLD \<Longrightarrow> oksLoop a i p1 p2 acc = acc"
  by (induction a i p1 p2 acc rule: oksLoop.induct) auto

lemma oksLoop_right_below:
  "\<forall>k\<in>set p2. score k < OKS_KEYPOINT_THRESHOLD \<Longrightarrow> oksLoop a i p1 p2 acc = acc"
  by (induction a i p1 p2 acc rule: oksLoop.induct) auto

text \<open>
  C3, as the specification states it: with no keypoint at or above the threshold, both
  area functions return \<open>1\<close>. The worklet \<^const>\<open>computeKeypointArea\<close> does not: on the
  all-zero pose of 17 keypoints it returns \<open>1e-6\<close>.
\<close>

theorem computeKeypointArea_fallback_is_not_one:
  "computeKeypointArea zeroPose = Fin (1 / 10 ^ 6) \<and> computeKeypointArea zeroPose \<noteq> Fin 1"
  by (simp add: computeKeypointArea_def zeroPose_def areaStep_def OKS_KEYPOINT_THRESHOLD_def
      jsnum_arith numeral_eq_Suc)

text \<open>
  C3, amended: when no keypoint has a score at or above \<open>KEYPOINT_THRESHOLD\<close>,
  \<^const>\<open>computeKeypointAreaJS\<close> returns the fallback \<open>1\<close> and \<^const>\<open>computeKeypointArea\<close>
  returns its own fallback \<open>1e-6\<close>; and when every score of a pose is a number below
  the threshold (the all-zero pose is one), both similarity functions return \<open>0\<close>
  against any pose, in either argument position.
\<close>

theorem area_fallback_and_zero_similarity:
  assumes "\<forall>k\<in>set ks. \<not> OKS_KEYPOINT_THRESHOLD \<le> score k"
  shows "computeKeypointAreaJS ks = Fin 1 \<and> computeKeypointArea ks = Fin (1 / 10 ^ 6)
    \<and> ((\<forall>k\<in>set ks. score k < OKS_KEYPOINT_THRESHOLD) \<longrightarrow>
         computeOKSSimilarity ks qs = Fin 0 \<and> computeOKSSimilarity qs ks = Fin 0
         \<and> computeOKSSimilarityJS ks qs = Fin 0 \<and> computeOKSSimilarityJS qs ks = Fin 0)"
proof -
  have "computeKeypointAreaJS ks = Fin 1"
    using assms by (simp add: computeKeypointAreaJS_def fold_areaStepJS_none)
  moreover have "computeKeypointArea ks = Fin (1 / 10 ^ 6)"
    using assms by (simp add: computeKeypointArea_def fold_areaStep_none)
  moreover have "computeOKSSimilarity ks qs = Fin 0 \<and> computeOKSSimilarity qs ks = Fin 0
      \<and> computeOKSSimilarityJS ks qs = Fin 0 \<and> computeOKSSimilarityJS qs ks = Fin 0"
    if "\<forall>k\<in>set ks. score k < OKS_KEYPOINT_THRESHOLD"
    using that
    by (simp add: computeOKSSimilarity_def computeOKSSimilarityJS_def oksLoop_left_below
        oksLoop_right_below OKS_MIN_KEYPOINTS_def)
  ultimately show ?thesis by blast
qed

theorem area_fallback_and_zero_similarity_witness:
  "computeKeypointAreaJS zeroPose = Fin 1 \<and> computeKeypointArea zeroPose = Fin (1 / 10 ^ 6)
   \<and> computeOKSSimilarity zeroPose zeroPose = Fin 0
   \<and> computeOKSSimilarityJS zeroPose zeroPose = Fin 0"
proof -
  have h: "\<forall>k\<in>set zeroPose. \<not> OKS_KEYPOINT_THRESHOLD \<le> score k"
    by (simp add: zeroPose_def OKS_KEYPOINT_THRESHOLD_def jsnum_arith)
  have b: "\<forall>k\<in>set zeroPose. score k < OKS_KEYPOINT_THRESHOLD"
    by (simp add: zeroPose_def OKS_KEYPOINT_THRESHOLD_def jsnum_arith)
  show ?thesis
    using area_fallback_and_zero_similarity [OF h, of zeroPose] b by blast
qed

section \<open>Identity\<close>

lemma keypointSimilarity_same:
  assumes "finiteKp k" "posInf area"
  shows "keypointSimilarity area i k k = Fin 1"
proof -
  obtain a b where ab: "xc k = Fin a" "yc k = Fin b"
    using assms by (auto simp: isFinite_iff finiteKp_def)
  have d2: "- ((Fin a - Fin a) * (Fin a - Fin a) + (Fin b - Fin b) * (Fin b - Fin b)) = Fin 0"
    by (simp add: jsnum_arith)
  show ?thesis
    unfolding keypointSimilarity_def Let_def ab d2
    using denominator_posInf[OF assms(2), of i] EXP_UNDERFLOW_facts(1)
    by (simp add: zero_div_posInf)
qed

lemma oksLoop_same:
  assumes "\<forall>k\<in>set P. finiteKp k" "posInf area" "real n + real (length P) \<le> BIG"
  shows "oksLoop area i P P (Fin (real n), n) =
    (Fin (real (n + length (filter (\<lambda>k. \<not> score k < OKS_KEYPOINT_THRESHOLD) P))),
     n + length (filter (\<lambda>k. \<not> score k < OKS_KEYPOINT_THRESHOLD) P))"
  using assms
proof (induction P arbitrary: i n)
  case Nil
  then show ?case by simp
next
  case (Cons k P)
  show ?case
  proof (cases "score k < OKS_KEYPOINT_THRESHOLD")
    case True
    with Cons.IH[of n "Suc i"] Cons.prems show ?thesis by simp
  next
    case False
    have s: "keypointSimilarity area i k k = Fin 1"
      using Cons.prems by (intro keypointSimilarity_same) simp_all
    have r: "Fin (real n) + Fin 1 = Fin (real (Suc n))"
      using Cons.prems(3) by (simp add: jsnum_arith rnd_small add.commute)
    have "real (Suc n) + real (length P) \<le> BIG"
      using Cons.prems(3) by simp
    from Cons.IH[OF _ Cons.prems(2) this, of "Suc i"] Cons.prems(1) False
    show ?thesis by (simp add: s r)
  qed
qed

lemma above_not_below:
  "OKS_KEYPOINT_THRESHOLD < score k \<Longrightarrow> \<not> score k < OKS_KEYPOINT_THRESHOLD"
  by (cases "score k") (simp_all add: OKS_KEYPOINT_THRESHOLD_def jsnum_arith)

lemma count_above_le_valid:
  "length (filter (\<lambda>k. OKS_KEYPOINT_THRESHOLD < score k) P)
   \<le> length (filter (\<lambda>k. \<not> score k < OKS_KEYPOINT_THRESHOLD) P)"
proof -
  have "filter (\<lambda>k. OKS_KEYPOINT_THRESHOLD < score k) P
      = filter (\<lambda>k. OKS_KEYPOINT_THRESHOLD < score k)
          (filter (\<lambda>k. \<not> score k < OKS_KEYPOINT_THRESHOLD) P)"
    using above_not_below by (auto intro: filter_cong)
  then show ?thesis by (metis length_filter_le)
qed

text \<open>
  C8: for every pose \<open>P\<close> of finite numbers (an array, so of fewer than \<open>2^32\<close>
  keypoints) with at least 4 keypoints whose score is above \<open>KEYPOINT_THRESHOLD\<close>,
  \<^const>\<open>computeOKSSimilarity\<close> of \<open>P\<close> with itself is exactly \<open>1\<close>.
\<close>

theorem oks_identity:
  assumes "length ps < 2 ^ 32"
    and "4 \<le> length (filter (\<lambda>k. OKS_KEYPOINT_THRESHOLD < score k) (finitePose ps))"
  shows "computeOKSSimilarity (finitePose ps) (finitePose ps) = Fin 1"
proof -
  let ?P = "finitePose ps"
  let ?m = "length (filter (\<lambda>k. \<not> score k < OKS_KEYPOINT_THRESHOLD) ?P)"
  have fin: "\<forall>k\<in>set ?P. finiteKp k"
    by (simp add: finitePose_finiteKp)
  have area: "posInf (computeKeypointArea ?P + Fin (1 / 10 ^ 6))"
    using computeKeypointArea_posInf[OF fin] by (rule posInf_add_Fin) simp
  have len: "real 0 + real (length ?P) \<le> BIG"
  proof -
    have "real (length ps) < 2 ^ 32" using assms(1)
      by (metis of_nat_less_iff of_nat_numeral of_nat_power)
    with BIG_ge(2) show ?thesis by (simp add: finitePose_def)
  qed
  have loop: "oksLoop (computeKeypointArea ?P + Fin (1 / 10 ^ 6)) 0 ?P ?P (Fin 0, 0)
      = (Fin (real ?m), ?m)"
    using oksLoop_same[OF fin area len, of 0] by simp
  from assms(2) count_above_le_valid[of ?P] have m4: "4 \<le> ?m" by linarith
  then have "real ?m \<noteq> 0" by auto
  then have "Fin (real ?m) / Fin (real ?m) = Fin 1"
    unfolding divide_jsnum_def by simp
  with m4 show ?thesis
    unfolding computeOKSSimilarity_def Let_def loop by (simp add: OKS_MIN_KEYPOINTS_def)
qed

theorem oks_identity_witness:
  "length [(100, 100, 9 / 10), (200, 100, 9 / 10), (100, 200, 9 / 10), (200, 200, 9 / 10 :: real)]
     < (2::nat) ^ 32
   \<and> 4 \<le> length (filter (\<lambda>k. OKS_KEYPOINT_THRESHOLD < score k) poseA)
   \<and> computeOKSSimilarity poseA poseA = Fin 1"
proof -
  have c: "4 \<le> length (filter (\<lambda>k. OKS_KEYPOINT_THRESHOLD < score k) poseA)"
    by (simp add: poseA_def finitePose_def OKS_KEYPOINT_THRESHOLD_def jsnum_arith)
  show ?thesis
    using oks_identity [of "[(100, 100, 9 / 10), (200, 100, 9 / 10), (100, 200, 9 / 10),
        (200, 200, 9 / 10)]"] c
    unfolding poseA_def by simp
qed

section \<open>Evaluating the similarity on concrete poses\<close>

lemma rnd_num: "\<bar>r\<bar> \<le> 10 ^ 12 \<Longrightarrow> rnd r = Fin r"
proof -
  have "(10::real) ^ 12 \<le> BIG" unfolding BIG_def by simp
  then show "\<bar>r\<bar> \<le> 10 ^ 12 \<Longrightarrow> rnd r = Fin r"
    by (intro rnd_small) linarith
qed

lemma rnd_exp_nonpos: "(q::real) \<le> 0 \<Longrightarrow> rnd (exp q) = Fin (exp q)"
  using BIG_ge(1) by (intro rnd_small) (simp add: order_trans[of _ 1])

lemma add_exp_bounds:
  fixes a q :: real
  assumes "0 \<le> a" "a \<le> 10 ^ 11" "q \<le> 0"
  shows "0 \<le> a + exp q" "a + exp q \<le> 10 ^ 12"
proof -
  have e1: "exp q \<le> 1" using assms(3) by simp
  have e0: "0 \<le> exp q" by simp
  show "0 \<le> a + exp q" using assms(1) e0 by linarith
  have "a + exp q \<le> a + 1" using e1 by linarith
  also have "\<dots> \<le> 10 ^ 12" using assms(2) by simp
  finally show "a + exp q \<le> 10 ^ 12" .
qed

lemma rnd_add_exp:
  "0 \<le> (a::real) \<Longrightarrow> a \<le> 10 ^ 11 \<Longrightarrow> q \<le> 0 \<Longrightarrow> rnd (a + exp q) = Fin (a + exp q)"
  using add_exp_bounds[of a q] by (intro rnd_num) linarith

lemma rnd_add_exp_div:
  fixes a q n :: real
  assumes "0 \<le> a" "a \<le> 10 ^ 11" "q \<le> 0" "1 \<le> n"
  shows "rnd ((a + exp q) / n) = Fin ((a + exp q) / n)"
proof -
  note b = add_exp_bounds[OF assms(1-3)]
  have "(a + exp q) / n \<le> (a + exp q) / 1"
    using assms(4) b(1) by (intro divide_left_mono) simp_all
  moreover have "0 \<le> (a + exp q) / n" using assms(4) b(1) by simp
  ultimately have "\<bar>(a + exp q) / n\<bar> \<le> 10 ^ 12" using b(2) by simp
  then show ?thesis by (rule rnd_num)
qed

lemmas eval_simps = jsnum_arith rnd_num rnd_exp_nonpos rnd_add_exp rnd_add_exp_div EXP_UNDERFLOW_def
  Math_min_def Math_max_def computeKeypointArea_def computeKeypointAreaJS_def areaStep_def areaStepJS_def
  OKS_KEYPOINT_THRESHOLD_def finitePose_def keypointSimilarity_def falloff_def OKS_KEYPOINT_FALLOFF_def
  computeOKSSimilarity_def computeOKSSimilarityJS_def OKS_MIN_KEYPOINTS_def Let_def

section \<open>Asymmetry\<close>

lemma areaB: "computeKeypointArea poseB = Fin 10500"
  by (simp add: poseB_def eval_simps)

lemma areaA: "computeKeypointArea poseA = Fin 10000"
  by (simp add: poseA_def eval_simps)

lemma simAB:
  "computeOKSSimilarity poseA poseB =
     Fin ((3 + exp (- 25 / (2 * (10500 + 1 / 10 ^ 6) * (7 / 100) * (7 / 100)))) / 4)"
  by (simp add: poseA_def poseB_def eval_simps)

lemma simBA:
  "computeOKSSimilarity poseB poseA =
     Fin ((3 + exp (- 25 / (2 * (10000 + 1 / 10 ^ 6) * (7 / 100) * (7 / 100)))) / 4)"
  by (simp add: poseA_def poseB_def eval_simps)


lemma simAB_JS:
  "computeOKSSimilarityJS poseA poseB =
     Fin ((3 + exp (- 25 / (2 * (10500 + 1 / 10 ^ 6) * (7 / 100) * (7 / 100)))) / 4)"
  by (simp add: poseA_def poseB_def eval_simps)

lemma simBA_JS:
  "computeOKSSimilarityJS poseB poseA =
     Fin ((3 + exp (- 25 / (2 * (10000 + 1 / 10 ^ 6) * (7 / 100) * (7 / 100)))) / 4)"
  by (simp add: poseA_def poseB_def eval_simps)

text \<open>
  C10: the similarity is not symmetric. \<^const>\<open>poseA\<close> and \<^const>\<open>poseB\<close> are finite poses of
  the same length, each with 4 keypoints above the threshold, that differ in one
  keypoint; the normalising area is that of the second argument (10500 against 10000),
  so that the two orders give different values, for both similarity functions.
\<close>

theorem oks_not_symmetric:
  "length poseA = length poseB
   \<and> 4 \<le> length (filter (\<lambda>k. OKS_KEYPOINT_THRESHOLD < score k) poseA)
   \<and> 4 \<le> length (filter (\<lambda>k. OKS_KEYPOINT_THRESHOLD < score k) poseB)
   \<and> computeOKSSimilarity poseA poseB \<noteq> computeOKSSimilarity poseB poseA
   \<and> computeOKSSimilarityJS poseA poseB \<noteq> computeOKSSimilarityJS poseB poseA"
proof -
  have "length poseA = length poseB"
    by (simp add: poseA_def poseB_def finitePose_def)
  moreover have "4 \<le> length (filter (\<lambda>k. OKS_KEYPOINT_THRESHOLD < score k) poseA)"
    by (simp add: poseA_def finitePose_def OKS_KEYPOINT_THRESHOLD_def jsnum_arith)
  moreover have "4 \<le> length (filter (\<lambda>k. OKS_KEYPOINT_THRESHOLD < score k) poseB)"
    by (simp add: poseB_def finitePose_def OKS_KEYPOINT_THRESHOLD_def jsnum_arith)
  moreover have "computeOKSSimilarity poseA poseB \<noteq> computeOKSSimilarity poseB poseA"
    unfolding simAB simBA by simp
  moreover have "computeOKSSimilarityJS poseA poseB \<noteq> computeOKSSimilarityJS poseB poseA"
    unfolding simAB_JS simBA_JS by simp
  ultimately show ?thesis by blast
qed

section \<open>Range of the similarity\<close>

lemma hugeCoord_facts:
  "1 < hugeCoord" "hugeCoord < OVF" "OVF \<le> hugeCoord * hugeCoord"
  unfolding hugeCoord_def OVF_def by simp_all

lemma OVF_gt_1: "1 < OVF"
  using BIG_lt_OVF BIG_ge(1) by linarith

lemmas eval_huge = jsnum_arith rnd_def jinf_def
  Math_min_def Math_max_def computeKeypointArea_def computeKeypointAreaJS_def areaStep_def areaStepJS_def
  OKS_KEYPOINT_THRESHOLD_def finitePose_def keypointSimilarity_def falloff_def OKS_KEYPOINT_FALLOFF_def
  computeOKSSimilarity_def computeOKSSimilarityJS_def OKS_MIN_KEYPOINTS_def Let_def

text \<open>
  C6, as the specification states it: for all finite inputs the similarity is in
  \<open>[0, 1]\<close> and never NaN, extremely large coordinates included. It fails at
  \<^const>\<open>hugeA\<close> and \<^const>\<open>hugeB\<close>, two poses of finite numbers: the area of \<^const>\<open>hugeB\<close> is
  \<^verbatim>\<open>1e200 * 1e200\<close>, which overflows to \<^verbatim>\<open>Infinity\<close>, the squared distance of the first
  keypoints overflows as well, and \<^verbatim>\<open>-Infinity / Infinity\<close> is NaN.
\<close>

theorem oks_nan_on_huge_coordinates:
  "computeOKSSimilarity hugeA hugeB = NaN \<and> computeOKSSimilarityJS hugeA hugeB = NaN"
  using hugeCoord_facts OVF_gt_1
  by (simp add: hugeA_def hugeB_def eval_huge)


lemma maxCoordinate_facts:
  "1 \<le> maxCoordinate" "8 * (maxCoordinate * maxCoordinate) + 1 \<le> BIG"
  unfolding maxCoordinate_def BIG_def by simp_all

lemma sq_le:
  fixes u c :: real
  assumes "\<bar>u\<bar> \<le> c"
  shows "u * u \<le> c * c"
proof -
  have "\<bar>u\<bar> * \<bar>u\<bar> \<le> c * c"
    using assms by (intro mult_mono) simp_all
  then show ?thesis by simp
qed

lemma m_le_sq:
  fixes m :: real
  assumes "1 \<le> m"
  shows "m \<le> m * m"
  using mult_left_mono[of 1 m m] assms by simp

lemma dSquared_bounded:
  assumes "\<bar>a1\<bar> \<le> maxCoordinate" "\<bar>a2\<bar> \<le> maxCoordinate"
    "\<bar>b1\<bar> \<le> maxCoordinate" "\<bar>b2\<bar> \<le> maxCoordinate"
  shows "(Fin a1 - Fin a2) * (Fin a1 - Fin a2) + (Fin b1 - Fin b2) * (Fin b1 - Fin b2)
    = Fin ((a1 - a2) * (a1 - a2) + (b1 - b2) * (b1 - b2))"
proof -
  let ?m = maxCoordinate
  note f = maxCoordinate_facts
  have mm: "?m \<le> ?m * ?m" using f(1) by (rule m_le_sq)
  have da: "\<bar>a1 - a2\<bar> \<le> 2 * ?m" and db: "\<bar>b1 - b2\<bar> \<le> 2 * ?m"
    using assms by linarith+
  have sa: "(a1 - a2) * (a1 - a2) \<le> 4 * (?m * ?m)"
    using sq_le[OF da] by simp
  have sb: "(b1 - b2) * (b1 - b2) \<le> 4 * (?m * ?m)"
    using sq_le[OF db] by simp
  have na: "0 \<le> (a1 - a2) * (a1 - a2)" and nb: "0 \<le> (b1 - b2) * (b1 - b2)"
    by simp_all
  have r1: "rnd (a1 - a2) = Fin (a1 - a2)"
    using da mm f by (intro rnd_small) linarith
  have r2: "rnd (b1 - b2) = Fin (b1 - b2)"
    using db mm f by (intro rnd_small) linarith
  have r3: "rnd ((a1 - a2) * (a1 - a2)) = Fin ((a1 - a2) * (a1 - a2))"
    using sa na f by (intro rnd_small) linarith
  have r4: "rnd ((b1 - b2) * (b1 - b2)) = Fin ((b1 - b2) * (b1 - b2))"
    using sb nb f by (intro rnd_small) linarith
  have r5: "rnd ((a1 - a2) * (a1 - a2) + (b1 - b2) * (b1 - b2))
      = Fin ((a1 - a2) * (a1 - a2) + (b1 - b2) * (b1 - b2))"
    using sa sb na nb f by (intro rnd_small) linarith
  show ?thesis
    by (simp add: jsnum_arith r1 r2 r3 r4 r5)
qed

lemma exp_term_unitRange:
  assumes "posInf den" "0 \<le> d"
  shows "unitRange (Math_exp (- Fin d / den))"
proof (cases den)
  case (Fin c)
  with assms have c: "0 < c" by simp
  then have q: "- d / c \<le> 0" using assms(2) by (simp add: divide_nonpos_pos)
  have "rnd (- d / c) = NInf \<or> rnd (- d / c) = Fin (- d / c)"
    using q OVF_pos unfolding rnd_def by auto
  then show ?thesis
  proof
    assume "rnd (- d / c) = NInf"
    then show ?thesis using Fin c by (simp add: jsnum_arith unitRange_def)
  next
    assume "rnd (- d / c) = Fin (- d / c)"
    then show ?thesis using Fin c q
      by (simp add: jsnum_arith unitRange_def rnd_exp_nonpos)
  qed
next
  case PInf
  then show ?thesis by (simp add: jsnum_arith unitRange_def)
next
  case NInf
  with assms show ?thesis by simp
next
  case NaN
  with assms show ?thesis by simp
qed

lemma keypointSimilarity_unitRange:
  assumes "boundedKp maxCoordinate k1" "boundedKp maxCoordinate k2" "posInf area"
  shows "unitRange (keypointSimilarity area i k1 k2)"
proof -
  obtain a1 b1 where k1: "xc k1 = Fin a1" "yc k1 = Fin b1" "\<bar>a1\<bar> \<le> maxCoordinate" "\<bar>b1\<bar> \<le> maxCoordinate"
    using assms(1) by (auto simp: boundedKp_def split: jsnum.splits)
  obtain a2 b2 where k2: "xc k2 = Fin a2" "yc k2 = Fin b2" "\<bar>a2\<bar> \<le> maxCoordinate" "\<bar>b2\<bar> \<le> maxCoordinate"
    using assms(2) by (auto simp: boundedKp_def split: jsnum.splits)
  have d: "(xc k1 - xc k2) * (xc k1 - xc k2) + (yc k1 - yc k2) * (yc k1 - yc k2)
     = Fin ((a1 - a2) * (a1 - a2) + (b1 - b2) * (b1 - b2))"
    unfolding k1 k2 using k1 k2 by (intro dSquared_bounded)
  have nn: "0 \<le> (a1 - a2) * (a1 - a2) + (b1 - b2) * (b1 - b2)" by simp
  show ?thesis
    unfolding keypointSimilarity_def Let_def d
    using exp_term_unitRange[OF denominator_posInf[OF assms(3), of i] nn]
    by (simp add: uminus_jsnum_def)
qed

lemma oksLoop_range:
  assumes "\<forall>k\<in>set A. boundedKp maxCoordinate k" "\<forall>k\<in>set B. boundedKp maxCoordinate k"
    "posInf area" "0 \<le> s" "s \<le> real n" "real n + real (length A) \<le> BIG"
  shows "\<exists>s' n'. oksLoop area i A B (Fin s, n) = (Fin s', n') \<and> 0 \<le> s' \<and> s' \<le> real n'"
  using assms
proof (induction A arbitrary: B i s n)
  case Nil
  then show ?case by auto
next
  case (Cons k1 A)
  show ?case
  proof (cases B)
    case Nil
    with Cons.prems show ?thesis by auto
  next
    case (Cons k2 B')
    have len: "real n + real (length A) \<le> BIG" "real (Suc n) + real (length A) \<le> BIG"
      using Cons.prems(6) by simp_all
    have bA: "\<forall>k\<in>set A. boundedKp maxCoordinate k" and bB: "\<forall>k\<in>set B'. boundedKp maxCoordinate k"
      using Cons.prems(1,2) Cons by simp_all
    show ?thesis
    proof (cases "score k1 < OKS_KEYPOINT_THRESHOLD \<or> score k2 < OKS_KEYPOINT_THRESHOLD")
      case True
      with Cons.IH[OF bA bB Cons.prems(3,4,5) len(1), of "Suc i"] Cons show ?thesis
        by simp
    next
      case False
      have "unitRange (keypointSimilarity area i k1 k2)"
        using Cons.prems(1,2,3) Cons by (intro keypointSimilarity_unitRange) simp_all
      then obtain e where e: "keypointSimilarity area i k1 k2 = Fin e" "0 \<le> e" "e \<le> 1"
        by (auto simp: unitRange_def split: jsnum.splits)
      have b: "0 \<le> s + e" "s + e \<le> real (Suc n)"
        using Cons.prems(4,5) e by simp_all
      have "\<bar>s + e\<bar> \<le> BIG" using b len(2) by simp
      then have sum: "Fin s + Fin e = Fin (s + e)"
        by (simp add: plus_jsnum_def rnd_small)
      from Cons.IH[OF bA bB Cons.prems(3) b len(2), of "Suc i"] False Cons show ?thesis
        by (simp add: e(1) sum)
    qed
  qed
qed

lemma mean_unitRange:
  assumes "0 \<le> s" "s \<le> real n" "0 < n"
  shows "unitRange (Fin s / Fin (real n))"
proof -
  have "0 \<le> s / real n" using assms by simp
  moreover have "s / real n \<le> 1" using assms by simp
  ultimately have "rnd (s / real n) = Fin (s / real n)"
    using BIG_ge(1) by (intro rnd_small) linarith
  then show ?thesis
    using assms \<open>0 \<le> s / real n\<close> \<open>s / real n \<le> 1\<close>
    by (simp add: divide_jsnum_def unitRange_def)
qed

lemma similarity_unitRange:
  assumes "\<forall>k\<in>set A. boundedKp maxCoordinate k" "\<forall>k\<in>set B. boundedKp maxCoordinate k"
    "posInf area" "real (length A) \<le> BIG"
  shows "unitRange (case oksLoop area 0 A B (Fin 0, 0) of
     (oksSum, validKeypointCount) \<Rightarrow>
       if validKeypointCount < OKS_MIN_KEYPOINTS then Fin 0
       else oksSum / Fin (real validKeypointCount))"
proof -
  obtain s' n' where l: "oksLoop area 0 A B (Fin 0, 0) = (Fin s', n')" "0 \<le> s'" "s' \<le> real n'"
    using oksLoop_range[OF assms(1,2,3), of 0 0 0] assms(4) by auto
  show ?thesis
  proof (cases "n' < OKS_MIN_KEYPOINTS")
    case True
    then show ?thesis by (simp add: l unitRange_def)
  next
    case False
    then have "0 < n'" by (simp add: OKS_MIN_KEYPOINTS_def)
    from mean_unitRange[OF l(2,3) this] False show ?thesis by (simp add: l)
  qed
qed

lemma areaStepJS_ok:
  assumes "boundedKp m k" "areaStateJS_ok m st"
  shows "areaStateJS_ok m (areaStepJS k st)"
proof -
  obtain a b where k: "xc k = Fin a" "yc k = Fin b" "\<bar>a\<bar> \<le> m" "\<bar>b\<bar> \<le> m"
    using assms(1) by (auto simp: boundedKp_def split: jsnum.splits)
  obtain minX maxX minY maxY where st: "st = (minX, maxX, minY, maxY)"
    by (cases st) auto
  show ?thesis
    using assms(2) k unfolding st
    by (auto simp: areaStateJS_ok_def areaStepJS_def jsnum_arith split: jsnum.splits)
qed

lemma fold_areaStepJS_ok:
  "\<forall>k\<in>set ks. boundedKp m k \<Longrightarrow> areaStateJS_ok m st \<Longrightarrow> areaStateJS_ok m (fold areaStepJS ks st)"
  by (induction ks arbitrary: st) (simp_all add: areaStepJS_ok)

lemma computeKeypointAreaJS_posInf:
  assumes "\<forall>k\<in>set ks. boundedKp maxCoordinate k"
  shows "posInf (computeKeypointAreaJS ks + Fin (1 / 10 ^ 6))"
proof -
  let ?m = maxCoordinate
  note f = maxCoordinate_facts
  obtain minX maxX minY maxY
    where st: "fold areaStepJS ks (PInf, NInf, PInf, NInf) = (minX, maxX, minY, maxY)"
    by (metis prod_cases4)
  have ok: "areaStateJS_ok ?m (minX, maxX, minY, maxY)"
    using fold_areaStepJS_ok[OF assms, of "(PInf, NInf, PInf, NInf)"]
    by (simp add: st areaStateJS_ok_def)
  show ?thesis
  proof (cases "isFinite minX \<and> isFinite maxX \<and> isFinite minY \<and> isFinite maxY")
    case False
    then have "computeKeypointAreaJS ks = Fin 1"
      by (auto simp: computeKeypointAreaJS_def st)
    then show ?thesis by (simp add: posInf_add_Fin)
  next
    case True
    then obtain a b c d where v: "minX = Fin a" "maxX = Fin b" "minY = Fin c" "maxY = Fin d"
      by (auto simp: isFinite_iff)
    from ok have o: "a \<le> b" "c \<le> d" "\<bar>a\<bar> \<le> ?m" "\<bar>b\<bar> \<le> ?m" "\<bar>c\<bar> \<le> ?m" "\<bar>d\<bar> \<le> ?m"
      by (simp_all add: v areaStateJS_ok_def)
    have mm: "?m \<le> ?m * ?m" using f(1) by (rule m_le_sq)
    have w: "0 \<le> b - a" "b - a \<le> 2 * ?m" and h: "0 \<le> d - c" "d - c \<le> 2 * ?m"
      using o by linarith+
    have p0: "0 \<le> (b - a) * (d - c)" using w(1) h(1) by simp
    have "(b - a) * (d - c) \<le> (2 * ?m) * (2 * ?m)"
      using w h by (intro mult_mono) simp_all
    then have p1: "(b - a) * (d - c) \<le> 4 * (?m * ?m)" by simp
    have r1: "rnd (b - a) = Fin (b - a)" using w mm f by (intro rnd_small) linarith
    have r2: "rnd (d - c) = Fin (d - c)" using h mm f by (intro rnd_small) linarith
    have r3: "rnd ((b - a) * (d - c)) = Fin ((b - a) * (d - c))"
      using p0 p1 f by (intro rnd_small) linarith
    have "computeKeypointAreaJS ks = Fin ((b - a) * (d - c))"
      by (simp add: computeKeypointAreaJS_def st v jsnum_arith r1 r2 r3)
    then show ?thesis using p0 by (simp add: plus_jsnum_def posInf_rnd)
  qed
qed

lemma coordsWithin_boundedKp:
  "coordsWithin m ps \<Longrightarrow> k \<in> set (finitePose ps) \<Longrightarrow> boundedKp m k"
  by (auto simp: coordsWithin_def finitePose_def boundedKp_def list_all_iff)

lemma boundedKp_finite_coords: "boundedKp m k \<Longrightarrow> isFinite (xc k) \<and> isFinite (yc k)"
  by (auto simp: boundedKp_def split: jsnum.splits)

text \<open>
  C6, amended: for all poses of finite numbers whose coordinates are at most \<open>1e150\<close>
  in magnitude (scores are arbitrary finite numbers, the arrays of any length an array
  can have), \<^const>\<open>computeOKSSimilarity\<close> and \<^const>\<open>computeOKSSimilarityJS\<close> return a number \<open>r\<close>
  with \<open>0 \<le> r \<le> 1\<close>, never NaN and never an infinity.
\<close>

theorem oks_range_bounded:
  assumes "length as < 2 ^ 32"
    and "coordsWithin maxCoordinate as" and "coordsWithin maxCoordinate bs"
  shows "unitRange (computeOKSSimilarity (finitePose as) (finitePose bs))
    \<and> unitRange (computeOKSSimilarityJS (finitePose as) (finitePose bs))"
proof -
  let ?A = "finitePose as" and ?B = "finitePose bs"
  have bA: "\<forall>k\<in>set ?A. boundedKp maxCoordinate k"
    using assms(2) coordsWithin_boundedKp by blast
  have bB: "\<forall>k\<in>set ?B. boundedKp maxCoordinate k"
    using assms(3) coordsWithin_boundedKp by blast
  have len: "real (length ?A) \<le> BIG"
  proof -
    have "real (length as) < 2 ^ 32" using assms(1)
      by (metis of_nat_less_iff of_nat_numeral of_nat_power)
    with BIG_ge(2) show ?thesis by (simp add: finitePose_def)
  qed
  have fin: "\<forall>k\<in>set ?B. finiteKp k"
    by (simp add: finitePose_finiteKp)
  have a1: "posInf (computeKeypointArea ?B + Fin (1 / 10 ^ 6))"
    using computeKeypointArea_posInf[OF fin] by (rule posInf_add_Fin) simp
  have a2: "posInf (computeKeypointAreaJS ?B + Fin (1 / 10 ^ 6))"
    using bB by (rule computeKeypointAreaJS_posInf)
  have z: "unitRange (Fin 0)" by (simp add: unitRange_def)
  have "unitRange (computeOKSSimilarity ?A ?B)"
    unfolding computeOKSSimilarity_def Let_def
    using similarity_unitRange[OF bA bB a1 len] z by (cases "length ?A = length ?B") simp_all
  moreover have "unitRange (computeOKSSimilarityJS ?A ?B)"
    unfolding computeOKSSimilarityJS_def Let_def
    using similarity_unitRange[OF bA bB a2 len] z by (cases "length ?A = length ?B") simp_all
  ultimately show ?thesis ..
qed

theorem oks_range_bounded_witness:
  "length [(100, 100, 9 / 10), (200, 100, 9 / 10), (100, 200, 9 / 10), (200, 200, 9 / 10 :: real)]
     < (2::nat) ^ 32
   \<and> coordsWithin maxCoordinate
        [(100, 100, 9 / 10), (200, 100, 9 / 10), (100, 200, 9 / 10), (200, 200, 9 / 10)]
   \<and> coordsWithin maxCoordinate
        [(100, 100, 9 / 10), (200, 100, 9 / 10), (100, 200, 9 / 10), (205, 200, 9 / 10)]
   \<and> unitRange (computeOKSSimilarity poseA poseB)
   \<and> unitRange (computeOKSSimilarityJS poseA poseB)"
proof -
  have a: "coordsWithin maxCoordinate
      [(100, 100, 9 / 10), (200, 100, 9 / 10), (100, 200, 9 / 10), (200, 200, 9 / 10)]"
    unfolding coordsWithin_def maxCoordinate_def by simp
  have b: "coordsWithin maxCoordinate
      [(100, 100, 9 / 10), (200, 100, 9 / 10), (100, 200, 9 / 10), (205, 200, 9 / 10)]"
    unfolding coordsWithin_def maxCoordinate_def by simp
  have l: "length [(100, 100, 9 / 10), (200, 100, 9 / 10), (100, 200, 9 / 10),
      (200, 200, 9 / 10 :: real)] < (2::nat) ^ 32"
    by simp
  show ?thesis
    using oks_range_bounded [OF l a b] a b l unfolding poseA_def poseB_def by blast
qed


section \<open>Monotonicity under translation\<close>

lemma Math_exp_quotient:
  assumes "0 < c" "0 \<le> d"
  shows "Math_exp (- Fin d / Fin c) = Fin (expTerm c d)"
proof -
  have q: "- d / c \<le> 0" using assms by (simp add: divide_nonpos_pos)
  have "rnd (- d / c) = NInf \<or> rnd (- d / c) = Fin (- d / c)"
    using q OVF_pos unfolding rnd_def by auto
  then show ?thesis
  proof
    assume n: "rnd (- d / c) = NInf"
    then have "- d / c \<le> - OVF" using q OVF_pos by (auto simp: rnd_def split: if_splits)
    then have "EXP_UNDERFLOW < d / c" using BIG_lt_OVF BIG_ge(2) EXP_UNDERFLOW_facts(2) by simp
    with n show ?thesis using assms by (simp add: jsnum_arith expTerm_def)
  next
    assume "rnd (- d / c) = Fin (- d / c)"
    then show ?thesis using assms q
      by (auto simp: jsnum_arith expTerm_def rnd_exp_nonpos)
  qed
qed

lemma expTerm_range: "0 < c \<Longrightarrow> 0 \<le> d \<Longrightarrow> 0 \<le> expTerm c d \<and> expTerm c d \<le> 1"
  by (simp add: expTerm_def divide_nonpos_pos)

lemma expTerm_notAbove:
  assumes "0 < c" "0 \<le> d1" "d1 \<le> d2"
  shows "notAbove (expTerm c d1) (expTerm c d2)"
proof -
  have le: "d1 / c \<le> d2 / c" using assms by (simp add: divide_right_mono)
  show ?thesis
  proof (cases "EXP_UNDERFLOW < d1 / c")
    case True
    with le show ?thesis by (simp add: expTerm_def notAbove_def)
  next
    case False
    show ?thesis
    proof (cases "EXP_UNDERFLOW < d2 / c")
      case True
      with False show ?thesis by (simp add: expTerm_def notAbove_def)
    next
      case F2: False
      with False le show ?thesis by (simp add: expTerm_def notAbove_def)
    qed
  qed
qed

lemma notAbove_add:
  "notAbove s1 s2 \<Longrightarrow> notAbove e1 e2 \<Longrightarrow> notAbove (s1 + e1) (s2 + e2)"
  unfolding notAbove_def by linarith


lemma areaStep_bounded:
  assumes "boundedKp m k" "areaState_bounded m st"
  shows "areaState_bounded m (areaStep k st)"
proof -
  obtain a b where k: "xc k = Fin a" "yc k = Fin b" "\<bar>a\<bar> \<le> m" "\<bar>b\<bar> \<le> m"
    using assms(1) by (auto simp: boundedKp_def split: jsnum.splits)
  obtain minX maxX minY maxY n where st: "st = (minX, maxX, minY, maxY, n)"
    by (cases st) auto
  show ?thesis
    using assms(2) k unfolding st
    by (auto simp: areaState_bounded_def areaStep_def Math_min_def Math_max_def jsnum_arith
        split: jsnum.splits)
qed

lemma fold_areaStep_bounded:
  "\<forall>k\<in>set ks. boundedKp m k \<Longrightarrow> areaState_bounded m st
   \<Longrightarrow> areaState_bounded m (fold areaStep ks st)"
  by (induction ks arbitrary: st) (simp_all add: areaStep_bounded)

lemma shrink:
  fixes p t :: real
  assumes "0 < p" "0 < t" "t \<le> 1"
  shows "0 < p * t" "p * t \<le> p"
  using assms by (simp_all add: mult_left_le)

lemma eps_facts: "0 < (1 / 10 ^ 6 :: real)" "(1 / 10 ^ 6 :: real) \<le> 1 / 2"
  by simp_all

lemma width_bounded:
  assumes "\<bar>a\<bar> \<le> maxCoordinate" "\<bar>b\<bar> \<le> maxCoordinate"
  shows "\<exists>w. Math_max (Fin b - Fin a) (Fin (1 / 10 ^ 6)) = Fin w \<and> 0 < w \<and> w \<le> 2 * maxCoordinate"
proof -
  note f = maxCoordinate_facts
  have mm: "maxCoordinate \<le> maxCoordinate * maxCoordinate" using f(1) by (rule m_le_sq)
  have "\<bar>b - a\<bar> \<le> 2 * maxCoordinate" using assms by linarith
  then have r: "rnd (b - a) = Fin (b - a)" using mm f by (intro rnd_small) linarith
  show ?thesis
  proof (cases "b - a < 1 / 10 ^ 6")
    case True
    then have "Math_max (Fin b - Fin a) (Fin (1 / 10 ^ 6)) = Fin (1 / 10 ^ 6)"
      by (simp add: Math_max_def jsnum_arith r)
    moreover have "(1 / 10 ^ 6 :: real) \<le> 2 * maxCoordinate"
      using f(1) eps_facts(2) by linarith
    ultimately show ?thesis using eps_facts(1) by blast
  next
    case False
    then have "Math_max (Fin b - Fin a) (Fin (1 / 10 ^ 6)) = Fin (b - a)"
      by (simp add: Math_max_def jsnum_arith r)
    moreover have "0 < b - a" using False eps_facts(1) by linarith
    moreover have "b - a \<le> 2 * maxCoordinate" using assms by linarith
    ultimately show ?thesis by blast
  qed
qed

lemma computeKeypointArea_finite:
  assumes "\<forall>k\<in>set ks. boundedKp maxCoordinate k"
  shows "\<exists>c. computeKeypointArea ks = Fin c \<and> 0 < c
     \<and> c \<le> 4 * (maxCoordinate * maxCoordinate)"
proof -
  let ?m = maxCoordinate
  note f = maxCoordinate_facts
  have mm: "?m \<le> ?m * ?m" using f(1) by (rule m_le_sq)
  obtain minX maxX minY maxY n
    where st: "fold areaStep ks (PInf, NInf, PInf, NInf, 0) = (minX, maxX, minY, maxY, n)"
    by (metis prod_cases5)
  have ok: "areaState_bounded ?m (minX, maxX, minY, maxY, n)"
    using fold_areaStep_bounded[OF assms, of "(PInf, NInf, PInf, NInf, 0)"]
    by (simp add: st areaState_bounded_def)
  show ?thesis
  proof (cases "n = 0")
    case True
    have "(1 / 10 ^ 6 :: real) \<le> 4 * (?m * ?m)"
      using f(1) mm eps_facts(2) by linarith
    moreover have "computeKeypointArea ks = Fin (1 / 10 ^ 6)"
      using True by (simp add: computeKeypointArea_def st)
    ultimately show ?thesis using eps_facts(1) by blast
  next
    case False
    with ok obtain a b c d where v: "minX = Fin a" "maxX = Fin b" "minY = Fin c" "maxY = Fin d"
      and o: "\<bar>a\<bar> \<le> ?m" "\<bar>b\<bar> \<le> ?m" "\<bar>c\<bar> \<le> ?m" "\<bar>d\<bar> \<le> ?m"
      by (auto simp: areaState_bounded_def split: jsnum.splits)
    obtain w where w: "Math_max (Fin b - Fin a) (Fin (1 / 10 ^ 6)) = Fin w" "0 < w" "w \<le> 2 * ?m"
      using width_bounded[OF o(1,2)] by blast
    obtain h where h: "Math_max (Fin d - Fin c) (Fin (1 / 10 ^ 6)) = Fin h" "0 < h" "h \<le> 2 * ?m"
      using width_bounded[OF o(3,4)] by blast
    have p0: "0 < w * h" using w(2) h(2) by simp
    have "w * h \<le> (2 * ?m) * (2 * ?m)"
      using w h by (intro mult_mono) simp_all
    then have p1: "w * h \<le> 4 * (?m * ?m)" by simp
    have r: "rnd (w * h) = Fin (w * h)" using p0 p1 f by (intro rnd_small) linarith
    have "computeKeypointArea ks = Fin w * Fin h"
      unfolding computeKeypointArea_def st v using False
      by (simp only: prod.case Let_def w h if_False)
    then have "computeKeypointArea ks = Fin (w * h)"
      by (simp add: times_jsnum_def r)
    with p0 p1 show ?thesis by blast
  qed
qed

lemma denominator_finite:
  assumes "0 \<le> c" "c \<le> 4 * (maxCoordinate * maxCoordinate)"
  shows "\<exists>den. Fin 2 * (Fin c + Fin (1 / 10 ^ 6)) * (Fin 2 * falloff i) * (Fin 2 * falloff i) = Fin den
     \<and> 0 < den \<and> den \<le> 2 * (c + 1 / 10 ^ 6) * (214 / 1000) * (214 / 1000)"
proof -
  note f = maxCoordinate_facts
  obtain r where r: "falloff i = Fin r" "25 / 1000 \<le> r" "r \<le> 107 / 1000"
    using falloff_pos by blast
  define cc where "cc = c + 1 / 10 ^ 6"
  have sq0: "0 \<le> maxCoordinate * maxCoordinate" by simp
  have c: "0 < cc" "2 * cc \<le> BIG"
    using assms f sq0 by (simp_all add: cc_def add_nonneg_pos)
  have t: "0 < 2 * r" "2 * r \<le> 1" "2 * r \<le> 214 / 1000" using r by linarith+
  have x: "Fin 2 * falloff i = Fin (2 * r)"
    using r BIG_ge(1) by (simp add: jsnum_arith rnd_small)
  have r0: "rnd cc = Fin cc" using c by (intro rnd_small) linarith
  have c2: "0 < 2 * cc" using c(1) by linarith
  have r1: "rnd (2 * cc) = Fin (2 * cc)" using c by (intro rnd_small) linarith
  note b2 = shrink[OF c2 t(1,2)]
  have r2: "rnd (2 * cc * (2 * r)) = Fin (2 * cc * (2 * r))"
    using b2 c by (intro rnd_small) linarith
  note b3 = shrink[OF b2(1) t(1,2)]
  have r3: "rnd (2 * cc * (2 * r) * (2 * r)) = Fin (2 * cc * (2 * r) * (2 * r))"
    using b3 b2 c by (intro rnd_small) linarith
  have u1: "2 * cc * (2 * r) \<le> 2 * cc * (214 / 1000)"
    using c2 t(3) by (intro mult_left_mono) linarith+
  have "2 * cc * (2 * r) * (2 * r) \<le> 2 * cc * (214 / 1000) * (214 / 1000)"
    using u1 t b2(1) by (intro mult_mono) linarith+
  then have ub: "2 * cc * (2 * r) * (2 * r) \<le> 2 * (c + 1 / 10 ^ 6) * (214 / 1000) * (214 / 1000)"
    unfolding cc_def .
  have "Fin c + Fin (1 / 10 ^ 6) = Fin cc"
    unfolding plus_jsnum_def jadd.simps cc_def[symmetric] by (rule r0)
  then have "Fin 2 * (Fin c + Fin (1 / 10 ^ 6)) * (Fin 2 * falloff i) * (Fin 2 * falloff i)
      = Fin (2 * cc * (2 * r) * (2 * r))"
    unfolding x by (simp only: times_jsnum_def jmul.simps r1 r2 r3)
  with b3(1) ub show ?thesis by blast
qed

lemma keypointSimilarity_translated:
  assumes "\<bar>a\<bar> \<le> maxCoordinate" "\<bar>b\<bar> \<le> maxCoordinate"
    "\<bar>a + u\<bar> \<le> maxCoordinate" "\<bar>b + v\<bar> \<le> maxCoordinate"
    and "Fin 2 * ar * (Fin 2 * falloff i) * (Fin 2 * falloff i) = Fin den" "0 < den"
  shows "keypointSimilarity ar i \<lparr>xc = Fin (a + u), yc = Fin (b + v), score = c1\<rparr>
           \<lparr>xc = Fin a, yc = Fin b, score = c2\<rparr>
         = Fin (expTerm den (u * u + v * v))"
proof -
  have d: "(Fin (a + u) - Fin a) * (Fin (a + u) - Fin a) + (Fin (b + v) - Fin b) * (Fin (b + v) - Fin b)
      = Fin (u * u + v * v)"
    using dSquared_bounded[OF assms(3) assms(1) assms(4) assms(2)] by simp
  have nn: "0 \<le> u * u + v * v" by simp
  show ?thesis
    unfolding keypointSimilarity_def Let_def
    by (simp only: keypoint.simps d assms(5) uminus_jsnum_def jneg.simps
        Math_exp_quotient[OF assms(6) nn, unfolded uminus_jsnum_def jneg.simps])
qed

lemma notAbove_bounds: "notAbove s1 s2 \<Longrightarrow> 0 \<le> s2 \<and> s2 \<le> s1"
  by (simp add: notAbove_def)

lemma oksLoop_translated:
  assumes den: "\<And>i. \<exists>den. Fin 2 * ar * (Fin 2 * falloff i) * (Fin 2 * falloff i) = Fin den \<and> 0 < den"
    and "coordsWithin maxCoordinate bs"
    and "coordsWithin maxCoordinate (translateBy u1 v1 bs)"
    and "coordsWithin maxCoordinate (translateBy u2 v2 bs)"
    and le: "u1 * u1 + v1 * v1 \<le> u2 * u2 + v2 * v2"
    and "notAbove s1 s2" "s1 \<le> real n" "real n + real (length bs) \<le> BIG"
  shows "\<exists>s1' s2'.
      oksLoop ar i (finitePose (translateBy u1 v1 bs)) (finitePose bs) (Fin s1, n)
        = (Fin s1', n + length (filter (\<lambda>k. \<not> score k < OKS_KEYPOINT_THRESHOLD) (finitePose bs)))
    \<and> oksLoop ar i (finitePose (translateBy u2 v2 bs)) (finitePose bs) (Fin s2, n)
        = (Fin s2', n + length (filter (\<lambda>k. \<not> score k < OKS_KEYPOINT_THRESHOLD) (finitePose bs)))
    \<and> notAbove s1' s2'
    \<and> s1' \<le> real (n + length (filter (\<lambda>k. \<not> score k < OKS_KEYPOINT_THRESHOLD) (finitePose bs)))"
  using assms(2-4,6-8)
proof (induction bs arbitrary: i s1 s2 n)
  case Nil
  then show ?case by (simp add: finitePose_def translateBy_def)
next
  case (Cons p bs)
  obtain a b c where p: "p = (a, b, c)" by (cases p) auto
  have cw: "coordsWithin maxCoordinate bs" "coordsWithin maxCoordinate (translateBy u1 v1 bs)"
    "coordsWithin maxCoordinate (translateBy u2 v2 bs)"
    using Cons.prems(1-3) by (simp_all add: coordsWithin_def translateBy_def)
  have hd: "\<bar>a\<bar> \<le> maxCoordinate" "\<bar>b\<bar> \<le> maxCoordinate"
    "\<bar>a + u1\<bar> \<le> maxCoordinate" "\<bar>b + v1\<bar> \<le> maxCoordinate"
    "\<bar>a + u2\<bar> \<le> maxCoordinate" "\<bar>b + v2\<bar> \<le> maxCoordinate"
    using Cons.prems(1-3) by (simp_all add: coordsWithin_def translateBy_def p)
  have len: "real n + real (length bs) \<le> BIG" "real (Suc n) + real (length bs) \<le> BIG"
    using Cons.prems(6) by simp_all
  have unf: "finitePose (translateBy u v (p # bs))
      = \<lparr>xc = Fin (a + u), yc = Fin (b + v), score = Fin c\<rparr> # finitePose (translateBy u v bs)"
    "finitePose (p # bs) = \<lparr>xc = Fin a, yc = Fin b, score = Fin c\<rparr> # finitePose bs" for u v
    by (simp_all add: finitePose_def translateBy_def p)
  show ?case
  proof (cases "Fin c < OKS_KEYPOINT_THRESHOLD")
    case True
    from Cons.IH[OF cw Cons.prems(4,5) len(1), of "Suc i"] True show ?thesis
      by (simp add: unf)
  next
    case False
    obtain den where den': "Fin 2 * ar * (Fin 2 * falloff i) * (Fin 2 * falloff i) = Fin den" "0 < den"
      using den by blast
    let ?e1 = "expTerm den (u1 * u1 + v1 * v1)" and ?e2 = "expTerm den (u2 * u2 + v2 * v2)"
    have k1: "keypointSimilarity ar i \<lparr>xc = Fin (a + u1), yc = Fin (b + v1), score = Fin c\<rparr>
        \<lparr>xc = Fin a, yc = Fin b, score = Fin c\<rparr> = Fin ?e1"
      using hd den' by (intro keypointSimilarity_translated)
    have k2: "keypointSimilarity ar i \<lparr>xc = Fin (a + u2), yc = Fin (b + v2), score = Fin c\<rparr>
        \<lparr>xc = Fin a, yc = Fin b, score = Fin c\<rparr> = Fin ?e2"
      using hd den' by (intro keypointSimilarity_translated)
    have de: "notAbove ?e1 ?e2"
      using den'(2) le by (intro expTerm_notAbove) simp_all
    have e1: "0 \<le> ?e1" "?e1 \<le> 1"
      using expTerm_range[OF den'(2), of "u1 * u1 + v1 * v1"] by simp_all
    have dn: "notAbove (s1 + ?e1) (s2 + ?e2)"
      using Cons.prems(4) de by (rule notAbove_add)
    have b1: "s1 + ?e1 \<le> real (Suc n)" using Cons.prems(5) e1 by simp
    have b0: "0 \<le> s2 + ?e2" "s2 + ?e2 \<le> s1 + ?e1"
      using notAbove_bounds[OF dn] by simp_all
    have n1: "real (Suc n) \<le> BIG" using len(2) by linarith
    have sum1: "Fin s1 + Fin ?e1 = Fin (s1 + ?e1)"
      unfolding plus_jsnum_def jadd.simps using b0 b1 n1 by (intro rnd_small) linarith
    have sum2: "Fin s2 + Fin ?e2 = Fin (s2 + ?e2)"
      unfolding plus_jsnum_def jadd.simps using b0 b1 n1 by (intro rnd_small) linarith
    from Cons.IH[OF cw dn b1 len(2), of "Suc i"] False show ?thesis
      by (simp add: unf k1 k2 sum1 sum2)
  qed
qed


lemma notAbove_divide:
  assumes "notAbove s1 s2" "0 < m"
  shows "notAbove (s1 / m) (s2 / m)"
proof -
  from assms(1) have b: "0 \<le> s2" "s2 \<le> s1"
    by (simp_all add: notAbove_def)
  have "0 \<le> s2 / m" using b(1) assms(2) by simp
  moreover have "s2 / m \<le> s1 / m" using b(2) assms(2) by (simp add: divide_right_mono)
  ultimately show ?thesis by (simp add: notAbove_def)
qed

lemma square_le_of_abs_le:
  fixes u1 u2 :: real
  assumes "\<bar>u1\<bar> \<le> \<bar>u2\<bar>"
  shows "u1 * u1 \<le> u2 * u2"
proof -
  have "\<bar>u1\<bar> * \<bar>u1\<bar> \<le> \<bar>u2\<bar> * \<bar>u2\<bar>"
    using assms by (intro mult_mono) simp_all
  then show ?thesis by simp
qed

lemma Fin_div_unit:
  fixes s m :: real
  assumes "0 \<le> s" "s \<le> m" "0 < m"
  shows "Fin s / Fin m = Fin (s / m)"
proof -
  have "0 \<le> s / m" "s / m \<le> 1" using assms by simp_all
  then have "rnd (s / m) = Fin (s / m)"
    using BIG_ge(1) by (intro rnd_small) linarith
  then show ?thesis using assms(3) by (simp add: divide_jsnum_def)
qed

text \<open>
  C9, as the specification states it: the similarity of a pose translated by a vector of
  magnitude \<open>t\<close> with the pose itself strictly decreases in \<open>t\<close>. It fails once the
  exponential has underflowed: for the four corners of a box of 100 by 100, translated
  by 300 and by 400, every term is \<^verbatim>\<open>Math.exp\<close> of a number below \<open>-900\<close>, which is \<open>0\<close>, so
  both similarities are \<open>0\<close>.
\<close>

theorem oks_zero_at_two_translations:
  "4 \<le> length (filter (\<lambda>k. OKS_KEYPOINT_THRESHOLD < score k) (finitePose poseA_triples))
   \<and> computeOKSSimilarity (finitePose (translateBy 300 0 poseA_triples))
        (finitePose poseA_triples) = Fin 0
   \<and> computeOKSSimilarity (finitePose (translateBy 400 0 poseA_triples))
        (finitePose poseA_triples) = Fin 0
   \<and> \<not> computeOKSSimilarity (finitePose (translateBy 400 0 poseA_triples))
          (finitePose poseA_triples)
        < computeOKSSimilarity (finitePose (translateBy 300 0 poseA_triples))
            (finitePose poseA_triples)"
  by (simp add: poseA_triples_def translateBy_def eval_simps)

text \<open>
  C9, amended: the similarity does not increase, and the decrease is not strict. For a
  reference pose with at least 4 keypoints above the threshold and two translations of it
  by the vectors \<open>(u1, v1)\<close> and \<open>(u2, v2)\<close>, the second pointing the same way as the first
  and at least as long in each coordinate (all coordinates at most \<open>1e150\<close> in magnitude),
  the similarity at the second translation is at most the similarity at the first, and
  both are in \<open>[0, 1]\<close>. The decrease is not strict: two different translations give
  the same similarity \<open>0\<close> once the exponential has underflowed, as above, and on doubles
  the values at two nearby translations can round to the same number. Each operation of
  the computation is monotone in the displacement of a keypoint, also after rounding,
  when the two translations point the same way; this is why the statement is about such
  translations and about \<open>\<le>\<close>.
\<close>

theorem oks_translation_monotone:
  assumes "length bs < 2 ^ 32"
    and "4 \<le> length (filter (\<lambda>k. OKS_KEYPOINT_THRESHOLD < score k) (finitePose bs))"
    and "coordsWithin maxCoordinate bs"
    and "coordsWithin maxCoordinate (translateBy u1 v1 bs)"
    and "coordsWithin maxCoordinate (translateBy u2 v2 bs)"
    and "0 \<le> u1 * u2" "\<bar>u1\<bar> \<le> \<bar>u2\<bar>" "0 \<le> v1 * v2" "\<bar>v1\<bar> \<le> \<bar>v2\<bar>"
  shows "\<exists>r1 r2.
      computeOKSSimilarity (finitePose (translateBy u1 v1 bs)) (finitePose bs) = Fin r1
    \<and> computeOKSSimilarity (finitePose (translateBy u2 v2 bs)) (finitePose bs) = Fin r2
    \<and> 0 \<le> r2 \<and> r2 \<le> r1 \<and> r1 \<le> 1"
proof -
  let ?B = "finitePose bs"
  let ?m = "length (filter (\<lambda>k. \<not> score k < OKS_KEYPOINT_THRESHOLD) ?B)"
  have bB: "\<forall>k\<in>set ?B. boundedKp maxCoordinate k"
    using assms(3) coordsWithin_boundedKp by blast
  obtain c where c: "computeKeypointArea ?B = Fin c" "0 < c"
      "c \<le> 4 * (maxCoordinate * maxCoordinate)"
    using computeKeypointArea_finite[OF bB] by blast
  have den: "\<exists>den. Fin 2 * (Fin c + Fin (1 / 10 ^ 6)) * (Fin 2 * falloff i) * (Fin 2 * falloff i)
      = Fin den \<and> 0 < den" for i
    using denominator_finite[OF less_imp_le[OF c(2)] c(3), of i] by blast
  have len: "real 0 + real (length bs) \<le> BIG"
  proof -
    have "real (length bs) < 2 ^ 32" using assms(1)
      by (metis of_nat_less_iff of_nat_numeral of_nat_power)
    with BIG_ge(2) show ?thesis by simp
  qed
  have le: "u1 * u1 + v1 * v1 \<le> u2 * u2 + v2 * v2"
    using square_le_of_abs_le[OF assms(7)] square_le_of_abs_le[OF assms(9)] by linarith
  have d0: "notAbove 0 0" by (simp add: notAbove_def)
  obtain s1 s2 where
    l1: "oksLoop (Fin c + Fin (1 / 10 ^ 6)) 0 (finitePose (translateBy u1 v1 bs)) ?B (Fin 0, 0)
      = (Fin s1, ?m)" and
    l2: "oksLoop (Fin c + Fin (1 / 10 ^ 6)) 0 (finitePose (translateBy u2 v2 bs)) ?B (Fin 0, 0)
      = (Fin s2, ?m)" and
    ds: "notAbove s1 s2" and s1: "s1 \<le> real ?m"
    using oksLoop_translated[OF den assms(3,4,5) le d0 _ len, of 0] by auto
  from assms(2) count_above_le_valid[of ?B] have m4: "4 \<le> ?m" by linarith
  then have mpos: "0 < real ?m" by auto
  note dd = notAbove_bounds[OF notAbove_divide[OF ds mpos]]
  have s2: "0 \<le> s2" "s2 \<le> s1" using notAbove_bounds[OF ds] by simp_all
  have top: "s1 / real ?m \<le> 1" using s1 mpos by simp
  have r1: "Fin s1 / Fin (real ?m) = Fin (s1 / real ?m)"
    using s2 s1 mpos by (intro Fin_div_unit) linarith+
  have r2: "Fin s2 / Fin (real ?m) = Fin (s2 / real ?m)"
    using s2 s1 mpos by (intro Fin_div_unit) linarith+
  have lenA: "length (finitePose (translateBy u v bs)) = length ?B" for u v
    by (simp add: finitePose_def translateBy_def)
  have "computeOKSSimilarity (finitePose (translateBy u1 v1 bs)) ?B = Fin (s1 / real ?m)"
    unfolding computeOKSSimilarity_def Let_def c(1) l1 using m4 lenA r1
    by (simp add: OKS_MIN_KEYPOINTS_def)
  moreover have "computeOKSSimilarity (finitePose (translateBy u2 v2 bs)) ?B = Fin (s2 / real ?m)"
    unfolding computeOKSSimilarity_def Let_def c(1) l2 using m4 lenA r2
    by (simp add: OKS_MIN_KEYPOINTS_def)
  ultimately show ?thesis using dd top by blast
qed

theorem oks_translation_monotone_witness:
  "length poseA_triples < 2 ^ 32
   \<and> 4 \<le> length (filter (\<lambda>k. OKS_KEYPOINT_THRESHOLD < score k) (finitePose poseA_triples))
   \<and> coordsWithin maxCoordinate poseA_triples
   \<and> coordsWithin maxCoordinate (translateBy 1 0 poseA_triples)
   \<and> coordsWithin maxCoordinate (translateBy 2 0 poseA_triples)
   \<and> (0 \<le> 1 * (2 :: real)) \<and> \<bar>1\<bar> \<le> \<bar>2 :: real\<bar> \<and> (0 \<le> 0 * (0 :: real)) \<and> \<bar>0\<bar> \<le> \<bar>0 :: real\<bar>
   \<and> (\<exists>r1 r2.
        computeOKSSimilarity (finitePose (translateBy 1 0 poseA_triples))
          (finitePose poseA_triples) = Fin r1
      \<and> computeOKSSimilarity (finitePose (translateBy 2 0 poseA_triples))
          (finitePose poseA_triples) = Fin r2
      \<and> 0 \<le> r2 \<and> r2 \<le> r1 \<and> r1 \<le> 1)"
proof -
  have l: "length poseA_triples < 2 ^ 32"
    by (simp add: poseA_triples_def)
  have c: "4 \<le> length (filter (\<lambda>k. OKS_KEYPOINT_THRESHOLD < score k) (finitePose poseA_triples))"
    by (simp add: poseA_triples_def finitePose_def OKS_KEYPOINT_THRESHOLD_def jsnum_arith)
  have w0: "coordsWithin maxCoordinate poseA_triples"
    unfolding coordsWithin_def maxCoordinate_def poseA_triples_def by simp
  have w1: "coordsWithin maxCoordinate (translateBy 1 0 poseA_triples)"
    unfolding coordsWithin_def maxCoordinate_def poseA_triples_def translateBy_def by simp
  have w2: "coordsWithin maxCoordinate (translateBy 2 0 poseA_triples)"
    unfolding coordsWithin_def maxCoordinate_def poseA_triples_def translateBy_def by simp
  have d: "0 \<le> 1 * (2 :: real)" "\<bar>1\<bar> \<le> \<bar>2 :: real\<bar>" "0 \<le> 0 * (0 :: real)" "\<bar>0\<bar> \<le> \<bar>0 :: real\<bar>"
    by simp_all
  show ?thesis
    using oks_translation_monotone [OF l c w0 w1 w2 d] l c w0 w1 w2 d by blast
qed


section \<open>Identity tracker: ages and identifiers\<close>

lemma fold_matchStep_empty: "findBestTrack [] d matched = (- 1, TRACKING_MIN_SIMILARITY)"
  by (simp add: findBestTrack_def)

lemma update_fresh: "k \<notin> fst ` set al \<Longrightarrow> AList.update k v al = al @ [(k, v)]"
  by (induction al) auto

lemma sorted_wrt_snoc_less:
  "sorted_wrt (<) (xs :: int list) \<Longrightarrow> \<forall>x\<in>set xs. x < k \<Longrightarrow> sorted_wrt (<) (xs @ [k])"
  by (simp add: sorted_wrt_append)

lemma update_present_values:
  "map_of al k = Some v \<Longrightarrow> (i, t) \<in> set (AList.update k v' al) \<Longrightarrow>
     (i, t) \<in> set al \<or> (i = k \<and> t = v')"
  by (induction al) (auto split: if_splits)

lemma detectStep_inv:
  assumes "trackerInv tm" "detectStep now act d (tm, matched) = (tm', matched')"
  shows "trackerInv tm' \<and> nextPersonId tm \<le> nextPersonId tm'
    \<and> (\<forall>i\<in>set (trackIds tm'). i \<in> set (trackIds tm) \<or> nextPersonId tm \<le> i)"
proof -
  obtain b s where best: "findBestTrack act d matched = (b, s)"
    by (cases "findBestTrack act d matched") auto
  from assms(1) have srt: "sorted_wrt (<) (map fst (trackedPersons tm))"
    and all: "\<forall>(i, t)\<in>set (trackedPersons tm). person_id t = i \<and> i < nextPersonId tm"
    by (auto simp: trackerInv_def trackIds_def list_all_iff)
  show ?thesis
  proof (cases "0 \<le> b")
    case True
    show ?thesis
    proof (cases "map_of (trackedPersons tm) b")
      case None
      with True best assms show ?thesis
        by (auto simp: detectStep_def)
    next
      case (Some track)
      then have mem: "(b, track) \<in> set (trackedPersons tm)" by (rule map_of_SomeD)
      then have key: "b \<in> set (map fst (trackedPersons tm))" by force
      let ?t = "track\<lparr>keypoints := d, lastSeen := now\<rparr>"
      have tm': "tm' = tm\<lparr>trackedPersons := AList.update b ?t (trackedPersons tm)\<rparr>"
        using True best Some assms(2) by (auto simp: detectStep_def)
      have keys: "map fst (trackedPersons tm') = map fst (trackedPersons tm)"
        using key by (simp add: tm' update_keys)
      have "person_id t = i \<and> i < nextPersonId tm" if "(i, t) \<in> set (trackedPersons tm')" for i t
        using update_present_values[OF Some, of i t ?t] that all mem by (auto simp: tm')
      then show ?thesis
        using srt keys by (auto simp: trackerInv_def trackIds_def list_all_iff tm')
    qed
  next
    case False
    show ?thesis
    proof (cases "length act < TRACKING_MAX_PERSONS")
      case F2: False
      with False best assms show ?thesis
        by (auto simp: detectStep_def)
    next
      case True
      let ?n = "nextPersonId tm"
      let ?t = "\<lparr>person_id = ?n, lastSeen = now, keypoints = d\<rparr>"
      have fresh: "?n \<notin> fst ` set (trackedPersons tm)"
        using all by force
      have tm': "tm' = tm\<lparr>nextPersonId := ?n + 1,
          trackedPersons := trackedPersons tm @ [(?n, ?t)]\<rparr>"
        using True False best assms(2) update_fresh[OF fresh]
        by (auto simp: detectStep_def Let_def)
      have "sorted_wrt (<) (map fst (trackedPersons tm) @ [?n])"
        using srt all by (intro sorted_wrt_snoc_less) force+
      then show ?thesis
        using all by (auto simp: trackerInv_def trackIds_def list_all_iff tm')
    qed
  qed
qed

lemma fold_detectStep_inv:
  assumes "trackerInv tm" "fold (detectStep now act) dets (tm, matched) = (tm', matched')"
  shows "trackerInv tm' \<and> nextPersonId tm \<le> nextPersonId tm'
    \<and> (\<forall>i\<in>set (trackIds tm'). i \<in> set (trackIds tm) \<or> nextPersonId tm \<le> i)"
  using assms
proof (induction dets arbitrary: tm matched)
  case Nil
  then show ?case by simp
next
  case (Cons d dets)
  obtain tm1 m1 where s: "detectStep now act d (tm, matched) = (tm1, m1)"
    by (cases "detectStep now act d (tm, matched)") auto
  note a = detectStep_inv[OF Cons.prems(1) s]
  from Cons.prems(2) s have "fold (detectStep now act) dets (tm1, m1) = (tm', matched')"
    by simp
  note b = Cons.IH[OF conjunct1[OF a] this]
  from a b show ?case by force
qed

lemma ageOut_subset: "set (ageOut now ps) \<subseteq> set ps"
  by (auto simp: ageOut_def)

lemma ageOut_fresh:
  "(i, t) \<in> set (ageOut now ps) \<Longrightarrow> now - lastSeen t < TRACKING_MAX_AGE"
  by (auto simp: ageOut_def)

lemma ageOut_sorted: "sorted_wrt (<) (map fst ps) \<Longrightarrow> sorted_wrt (<) (map fst (ageOut now ps))"
  unfolding ageOut_def by (induction ps) auto

lemma procesFrame_fields:
  "\<exists>tm1 m1. fold (detectStep now (getActiveTracks (trackedPersons tm) now)) dets (tm, {}) = (tm1, m1)
     \<and> trackedPersons (procesFrame tm dets now) = ageOut now (trackedPersons tm1)
     \<and> nextPersonId (procesFrame tm dets now) = nextPersonId tm1"
  by (cases "fold (detectStep now (getActiveTracks (trackedPersons tm) now)) dets (tm, {})")
    (simp add: procesFrame_def Let_def)

lemma procesFrame_inv:
  assumes "trackerInv tm"
  shows "trackerInv (procesFrame tm dets now)
    \<and> nextPersonId tm \<le> nextPersonId (procesFrame tm dets now)
    \<and> (\<forall>i\<in>set (trackIds (procesFrame tm dets now)). i \<in> set (trackIds tm) \<or> nextPersonId tm \<le> i)"
proof -
  obtain tm1 m1 where
    f: "fold (detectStep now (getActiveTracks (trackedPersons tm) now)) dets (tm, {}) = (tm1, m1)"
    and t: "trackedPersons (procesFrame tm dets now) = ageOut now (trackedPersons tm1)"
    and n: "nextPersonId (procesFrame tm dets now) = nextPersonId tm1"
    using procesFrame_fields by blast
  note a = fold_detectStep_inv[OF assms f]
  have sub: "set (trackedPersons (procesFrame tm dets now)) \<subseteq> set (trackedPersons tm1)"
    unfolding t by (rule ageOut_subset)
  have "trackerInv (procesFrame tm dets now)"
    using a sub ageOut_sorted[of "trackedPersons tm1" now]
    by (auto simp: trackerInv_def trackIds_def list_all_iff t n)
  moreover have "\<forall>i\<in>set (trackIds (procesFrame tm dets now)). i \<in> set (trackIds tm) \<or> nextPersonId tm \<le> i"
    using a sub by (force simp: trackIds_def)
  ultimately show ?thesis using a n by simp
qed

lemma runFrames_snoc:
  "runFrames tm (frames @ [(dets, now)]) = procesFrame (runFrames tm frames) dets now"
  by (simp add: runFrames_def)

lemma trackerInv_new: "trackerInv newTrackingManager"
  by (simp add: trackerInv_def trackIds_def newTrackingManager_def)

lemma runFrames_inv: "trackerInv (runFrames newTrackingManager frames)"
proof (induction frames rule: rev_induct)
  case Nil
  then show ?case by (simp add: runFrames_def trackerInv_new)
next
  case (snoc f frames)
  obtain dets now where f: "f = (dets, now)" by (cases f) auto
  show ?case
    unfolding f runFrames_snoc using procesFrame_inv[OF snoc.IH] by simp
qed

lemma runFrames_counter_mono:
  "k \<le> length frames \<Longrightarrow>
   nextPersonId (runFrames newTrackingManager (take k frames))
     \<le> nextPersonId (runFrames newTrackingManager frames)"
proof (induction frames rule: rev_induct)
  case Nil
  then show ?case by simp
next
  case (snoc f frames)
  obtain dets now where f: "f = (dets, now)" by (cases f) auto
  show ?case
  proof (cases "k \<le> length frames")
    case True
    have "nextPersonId (runFrames newTrackingManager frames)
        \<le> nextPersonId (runFrames newTrackingManager (frames @ [f]))"
      unfolding f runFrames_snoc using procesFrame_inv[OF runFrames_inv] by simp
    with snoc.IH[OF True] True show ?thesis by simp
  next
    case False
    with snoc.prems have "k = length (frames @ [f])" by simp
    then show ?thesis by simp
  qed
qed

lemma trackerInv_ids_below:
  "trackerInv tm \<Longrightarrow> i \<in> set (trackIds tm) \<Longrightarrow> i < nextPersonId tm"
  by (auto simp: trackerInv_def trackIds_def list_all_iff)

text \<open>
  A track that is not active when the frame begins (\<open>MAX_AGE \<le> now - lastSeen\<close>) is not in
  \<^verbatim>\<open>activeTracks\<close>, so no detection of the frame is matched with it; the loop leaves its
  entry as it was, and the sweep deletes it.
\<close>

lemma matchStep_id:
  "fst (matchStep d matched t best) = fst best \<or> fst (matchStep d matched t best) = person_id t"
  by (cases best) (simp add: matchStep_def Let_def)

lemma fold_matchStep_id:
  "fst (fold (matchStep d matched) act best) = fst best
   \<or> fst (fold (matchStep d matched) act best) \<in> person_id ` set act"
proof (induction act arbitrary: best)
  case Nil
  then show ?case by simp
next
  case (Cons t act)
  from Cons.IH[of "matchStep d matched t best"] matchStep_id[of d matched t best]
  show ?case by auto
qed

lemma findBestTrack_id:
  "fst (findBestTrack act d matched) = - 1 \<or> fst (findBestTrack act d matched) \<in> person_id ` set act"
  using fold_matchStep_id[of d matched act "(- 1, TRACKING_MIN_SIMILARITY)"]
  by (simp add: findBestTrack_def)

lemma detectStep_keeps:
  assumes "trackerInv tm" "i < nextPersonId tm" "i \<notin> person_id ` set act"
    and "detectStep now act d (tm, matched) = (tm', matched')"
  shows "map_of (trackedPersons tm') i = map_of (trackedPersons tm) i"
proof -
  obtain b s where best: "findBestTrack act d matched = (b, s)"
    by (cases "findBestTrack act d matched") auto
  from findBestTrack_id[of act d matched] best assms(3)
  have bi: "b = - 1 \<or> b \<noteq> i" by auto
  show ?thesis
  proof (cases "0 \<le> b")
    case True
    with bi have "b \<noteq> i" by auto
    with True best assms(4) show ?thesis
      by (auto simp: detectStep_def update_conv' split: option.splits)
  next
    case False
    with best assms(2,4) show ?thesis
      by (auto simp: detectStep_def Let_def update_conv' split: if_splits)
  qed
qed

lemma fold_detectStep_keeps:
  assumes "trackerInv tm" "i < nextPersonId tm" "i \<notin> person_id ` set act"
    and "fold (detectStep now act) dets (tm, matched) = (tm', matched')"
  shows "map_of (trackedPersons tm') i = map_of (trackedPersons tm) i"
  using assms(1,2,4)
proof (induction dets arbitrary: tm matched)
  case Nil
  then show ?case by simp
next
  case (Cons d dets)
  obtain tm1 m1 where s: "detectStep now act d (tm, matched) = (tm1, m1)"
    by (cases "detectStep now act d (tm, matched)") auto
  note a = detectStep_inv[OF Cons.prems(1) s]
  note k = detectStep_keeps[OF Cons.prems(1,2) assms(3) s]
  from a Cons.prems(2) have lt: "i < nextPersonId tm1" by linarith
  from Cons.prems(3) s have "fold (detectStep now act) dets (tm1, m1) = (tm', matched')"
    by simp
  from Cons.IH[OF conjunct1[OF a] lt this] k show ?case by simp
qed

lemma trackerInv_distinct: "trackerInv tm \<Longrightarrow> distinct (map fst (trackedPersons tm))"
  by (simp add: trackerInv_def trackIds_def strict_sorted_iff)

lemma stale_not_active:
  assumes "trackerInv tm" "(i, track) \<in> set (trackedPersons tm)"
    and "TRACKING_MAX_AGE \<le> now - lastSeen track"
  shows "i \<notin> person_id ` set (getActiveTracks (trackedPersons tm) now)"
proof
  assume "i \<in> person_id ` set (getActiveTracks (trackedPersons tm) now)"
  then obtain j t where t: "(j, t) \<in> set (trackedPersons tm)" "person_id t = i"
      "now - lastSeen t < TRACKING_MAX_AGE"
    by (auto simp: getActiveTracks_def)
  from assms(1) t(1,2) have "j = i" by (auto simp: trackerInv_def list_all_iff)
  with t(1) assms(2) trackerInv_distinct[OF assms(1)] have "t = track"
    by (meson eq_key_imp_eq_value)
  with t(3) assms(3) show False by simp
qed

lemma procesFrame_removes_stale:
  assumes "trackerInv tm" "(i, track) \<in> set (trackedPersons tm)"
    and "TRACKING_MAX_AGE \<le> now - lastSeen track"
  shows "i \<notin> set (trackIds (procesFrame tm dets now))"
proof
  assume mem: "i \<in> set (trackIds (procesFrame tm dets now))"
  obtain tm1 m1 where
    f: "fold (detectStep now (getActiveTracks (trackedPersons tm) now)) dets (tm, {}) = (tm1, m1)"
    and t: "trackedPersons (procesFrame tm dets now) = ageOut now (trackedPersons tm1)"
    and n: "nextPersonId (procesFrame tm dets now) = nextPersonId tm1"
    using procesFrame_fields by blast
  have lt: "i < nextPersonId tm"
    using assms(1,2) by (auto simp: trackerInv_def list_all_iff)
  have before: "map_of (trackedPersons tm) i = Some track"
    using trackerInv_distinct[OF assms(1)] assms(2) by simp
  have after: "map_of (trackedPersons tm1) i = Some track"
    using fold_detectStep_keeps[OF assms(1) lt stale_not_active[OF assms] f] before by simp
  have inv1: "trackerInv tm1" using fold_detectStep_inv[OF assms(1) f] by simp
  from mem obtain t' where t': "(i, t') \<in> set (ageOut now (trackedPersons tm1))"
    by (auto simp: trackIds_def t)
  then have "(i, t') \<in> set (trackedPersons tm1)" using ageOut_subset by blast
  then have "map_of (trackedPersons tm1) i = Some t'"
    using trackerInv_distinct[OF inv1] by simp
  with after have "t' = track" by simp
  with ageOut_fresh[OF t'] assms(3) show False by simp
qed


lemma first_frame:
  "runFrames newTrackingManager [([farPerson 0], 0)]
     = \<lparr>trackedPersons = [(0, \<lparr>person_id = 0, lastSeen = 0, keypoints = farPerson 0\<rparr>)],
        nextPersonId = 1, frameHistory = [(0, 1)]\<rparr>"
  by (simp add: runFrames_def newTrackingManager_def procesFrame_def getActiveTracks_def
      detectStep_def findBestTrack_def TRACKING_MAX_PERSONS_def ageOut_def
      TRACKING_MAX_AGE_def Let_def)

lemma second_frame:
  "procesFrame (runFrames newTrackingManager [([farPerson 0], 0)]) [farPerson 0] 1000
     = \<lparr>trackedPersons = [(1, \<lparr>person_id = 1, lastSeen = 1000, keypoints = farPerson 0\<rparr>)],
        nextPersonId = 2, frameHistory = [(0, 1), (1000, 1)]\<rparr>"
  unfolding first_frame
  by (simp add: procesFrame_def getActiveTracks_def
      detectStep_def findBestTrack_def TRACKING_MAX_PERSONS_def ageOut_def
      TRACKING_MAX_AGE_def Let_def)

text \<open>
  C7: in every run of the manager from its construction (no reset), after each frame
  every remaining track has \<open>now - lastSeen < MAX_AGE\<close> and sits under its own id; a track
  of the registry whose last matching detection is \<open>MAX_AGE\<close> or more before the frame is
  removed by the frame, whatever the detections; the ids of the registry are strictly
  increasing in insertion order, so no two live tracks share an id; and every id of the
  registry that the previous registry did not hold (a newly allocated one) is strictly
  greater than every id of every earlier registry of the run, so that no id is ever
  used again. In the example a person seen at time \<open>0\<close> is seen again at time \<open>1000\<close>: the
  track \<open>0\<close> is removed and the person gets the id \<open>1\<close>.
\<close>

theorem tracker_age_and_ids:
  assumes "tm = runFrames newTrackingManager frames" and "tm' = procesFrame tm dets now"
  shows "(\<forall>(i, track)\<in>set (getTracks tm').
            now - lastSeen track < TRACKING_MAX_AGE \<and> person_id track = i)
    \<and> (\<forall>(i, track)\<in>set (getTracks tm).
          TRACKING_MAX_AGE \<le> now - lastSeen track \<longrightarrow> i \<notin> set (map fst (getTracks tm')))
    \<and> sorted_wrt (<) (map fst (getTracks tm'))
    \<and> distinct (map fst (getTracks tm'))
    \<and> (\<forall>i\<in>set (map fst (getTracks tm')).
          i \<in> set (map fst (getTracks tm))
          \<or> (\<forall>k\<le>length frames.
                \<forall>j\<in>set (map fst (getTracks (runFrames newTrackingManager (take k frames)))).
                  j < i))"
proof -
  have inv: "trackerInv tm" unfolding assms(1) by (rule runFrames_inv)
  note p = procesFrame_inv[OF inv, of dets now, folded assms(2)]
  obtain tm1 m1 where
    f: "fold (detectStep now (getActiveTracks (trackedPersons tm) now)) dets (tm, {}) = (tm1, m1)"
    and t0: "trackedPersons (procesFrame tm dets now) = ageOut now (trackedPersons tm1)"
    and n: "nextPersonId (procesFrame tm dets now) = nextPersonId tm1"
    using procesFrame_fields by blast
  have t: "trackedPersons tm' = ageOut now (trackedPersons tm1)"
    unfolding assms(2) by (rule t0)
  have age: "\<forall>(i, track)\<in>set (getTracks tm'). now - lastSeen track < TRACKING_MAX_AGE \<and> person_id track = i"
    using p ageOut_fresh[of _ _ now "trackedPersons tm1"]
    by (auto simp: getTracks_def t trackerInv_def list_all_iff)
  have gone: "\<forall>(i, track)\<in>set (getTracks tm).
      TRACKING_MAX_AGE \<le> now - lastSeen track \<longrightarrow> i \<notin> set (map fst (getTracks tm'))"
    using procesFrame_removes_stale[OF inv, of _ _ now dets]
    by (auto simp: getTracks_def trackIds_def assms(2))
  have srt: "sorted_wrt (<) (map fst (getTracks tm'))"
    using p by (simp add: trackerInv_def trackIds_def getTracks_def)
  then have dist: "distinct (map fst (getTracks tm'))"
    by (simp add: strict_sorted_iff)
  have new: "i \<in> set (map fst (getTracks tm)) \<or> (\<forall>k\<le>length frames.
                \<forall>j\<in>set (map fst (getTracks (runFrames newTrackingManager (take k frames)))).
                  j < i)" if i: "i \<in> set (map fst (getTracks tm'))" for i
  proof (cases "i \<in> set (map fst (getTracks tm))")
    case True
    then show ?thesis by simp
  next
    case False
    with p i have ge: "nextPersonId tm \<le> i" by (auto simp: trackIds_def getTracks_def)
    have "j < i" if k: "k \<le> length frames"
      and j: "j \<in> set (map fst (getTracks (runFrames newTrackingManager (take k frames))))" for k j
    proof -
      have "j < nextPersonId (runFrames newTrackingManager (take k frames))"
        using trackerInv_ids_below[OF runFrames_inv, of j "take k frames"] j
        by (simp add: trackIds_def getTracks_def)
      also have "\<dots> \<le> nextPersonId tm"
        unfolding assms(1) using k by (rule runFrames_counter_mono)
      finally show ?thesis using ge by simp
    qed
    then show ?thesis by blast
  qed
  from age gone srt dist new show ?thesis by blast
qed

theorem tracker_age_and_ids_witness:
  "getTracks (runFrames newTrackingManager [([farPerson 0], 0)])
     = [(0, \<lparr>person_id = 0, lastSeen = 0, keypoints = farPerson 0\<rparr>)]
   \<and> TRACKING_MAX_AGE \<le> 1000 - 0
   \<and> getTracks (procesFrame (runFrames newTrackingManager [([farPerson 0], 0)]) [farPerson 0] 1000)
     = [(1, \<lparr>person_id = 1, lastSeen = 1000, keypoints = farPerson 0\<rparr>)]
   \<and> 0 \<notin> set (map fst (getTracks
        (procesFrame (runFrames newTrackingManager [([farPerson 0], 0)]) [farPerson 0] 1000)))
   \<and> sorted_wrt (<) (map fst (getTracks
        (procesFrame (runFrames newTrackingManager [([farPerson 0], 0)]) [farPerson 0] 1000)))
   \<and> distinct (map fst (getTracks
        (procesFrame (runFrames newTrackingManager [([farPerson 0], 0)]) [farPerson 0] 1000)))"
proof -
  let ?tm = "runFrames newTrackingManager [([farPerson 0], 0)]"
  let ?tm' = "procesFrame ?tm [farPerson 0] 1000"
  have a: "getTracks ?tm = [(0, \<lparr>person_id = 0, lastSeen = 0, keypoints = farPerson 0\<rparr>)]"
    by (simp add: first_frame getTracks_def)
  have b: "TRACKING_MAX_AGE \<le> 1000 - 0" by (simp add: TRACKING_MAX_AGE_def)
  have c: "getTracks ?tm' = [(1, \<lparr>person_id = 1, lastSeen = 1000, keypoints = farPerson 0\<rparr>)]"
    by (simp add: second_frame getTracks_def)
  note th = tracker_age_and_ids [OF refl refl, of "[([farPerson 0], 0)]" "[farPerson 0]" 1000]
  have d: "0 \<notin> set (map fst (getTracks ?tm'))"
    using th b unfolding a by simp
  have e: "sorted_wrt (<) (map fst (getTracks ?tm'))" "distinct (map fst (getTracks ?tm'))"
    using th by blast+
  from a b c d e show ?thesis by blast
qed


text \<open>
  The tracking effect of the screen is one frame of the manager with a single detection,
  so that the same holds of it.
\<close>

lemma trackingEffect_procesFrame:
  "trackingEffect (trackedPersons tm, nextPersonId tm) d now
     = (trackedPersons (procesFrame tm [d] now), nextPersonId (procesFrame tm [d] now))"
  by (auto simp: trackingEffect_def procesFrame_def detectStep_def Let_def
      split: prod.splits option.splits)

section \<open>Identity tracker: capacity\<close>

text \<open>
  With no active track at the start of a frame, no detection is matched and the capacity
  test reads \<^verbatim>\<open>activeTracks.length\<close>, which is the number of active tracks when the frame
  began: it stays \<open>0\<close> while the loop adds tracks, and every detection gets one.
\<close>

lemma length_freshTracks [simp]: "length (freshTracks n now dets) = length dets"
  by (induction dets arbitrary: n) simp_all

lemma freshTracks_lastSeen: "(i, t) \<in> set (freshTracks n now dets) \<Longrightarrow> lastSeen t = now"
  by (induction dets arbitrary: n) auto

lemma fold_detectStep_no_active:
  assumes "\<forall>i\<in>fst ` set (trackedPersons tm). i < nextPersonId tm"
  shows "fold (detectStep now []) dets (tm, matched)
     = (tm\<lparr>nextPersonId := nextPersonId tm + int (length dets),
           trackedPersons := trackedPersons tm @ freshTracks (nextPersonId tm) now dets\<rparr>,
        matched)"
  using assms
proof (induction dets arbitrary: tm)
  case Nil
  then show ?case by simp
next
  case (Cons d dets)
  let ?n = "nextPersonId tm"
  let ?tm1 = "tm\<lparr>nextPersonId := ?n + 1,
      trackedPersons := trackedPersons tm @ [(?n, \<lparr>person_id = ?n, lastSeen = now, keypoints = d\<rparr>)]\<rparr>"
  have fresh: "?n \<notin> fst ` set (trackedPersons tm)" using Cons.prems by force
  have step: "detectStep now [] d (tm, matched) = (?tm1, matched)"
    by (simp add: detectStep_def findBestTrack_def TRACKING_MAX_PERSONS_def Let_def
        update_fresh[OF fresh])
  have inv1: "\<forall>i\<in>fst ` set (trackedPersons ?tm1). i < nextPersonId ?tm1"
    using Cons.prems by force
  have "fold (detectStep now []) (d # dets) (tm, matched)
      = fold (detectStep now []) dets (?tm1, matched)"
    by (simp add: step)
  also have "\<dots> = (?tm1\<lparr>nextPersonId := nextPersonId ?tm1 + int (length dets),
           trackedPersons := trackedPersons ?tm1 @ freshTracks (nextPersonId ?tm1) now dets\<rparr>,
        matched)"
    by (rule Cons.IH[OF inv1])
  also have "\<dots> = (tm\<lparr>nextPersonId := ?n + int (length (d # dets)),
           trackedPersons := trackedPersons tm @ freshTracks ?n now (d # dets)\<rparr>, matched)"
    by simp
  finally show ?case .
qed

lemma procesFrame_empty_registry:
  assumes "trackedPersons tm = []"
  shows "trackedPersons (procesFrame tm dets now) = freshTracks (nextPersonId tm) now dets"
proof -
  have act: "getActiveTracks [] now = []"
    by (simp add: getActiveTracks_def)
  have inv: "\<forall>i\<in>fst ` set (trackedPersons tm). i < nextPersonId tm"
    by (simp add: assms)
  have keep: "ageOut now (freshTracks n now dets) = freshTracks n now dets" for n
    unfolding ageOut_def
    by (rule filter_True) (auto simp: TRACKING_MAX_AGE_def dest: freshTracks_lastSeen)
  show ?thesis
    by (simp add: procesFrame_def Let_def act fold_detectStep_no_active[OF inv] assms keep)
qed

text \<open>
  The persons \<^const>\<open>farPerson\<close> \<open>0\<close>, ..., \<^const>\<open>farPerson\<close> \<open>18\<close> stand 1000 apart from each other;
  any two of them have similarity \<open>0\<close>, below \<open>MIN_SIMILARITY\<close>.
\<close>

lemma upt17: "[0..<17] = [0,1,2,3,4,5,6,7,8,9,10,11,12,13,14,15,16]"
  by (simp add: upt_rec)

lemma farPerson_areaJS: "computeKeypointAreaJS (farPerson j) = Fin 6400"
  by (simp add: farPerson_def farTriples_def finitePose_def upt17 computeKeypointAreaJS_def
      areaStepJS_def OKS_KEYPOINT_THRESHOLD_def jsnum_arith rnd_num Let_def)

lemma expTerm_zero:
  assumes "0 < den" "den \<le> D" "746 * D \<le> d"
  shows "expTerm den d = 0"
proof -
  have "746 * den \<le> d" using assms by linarith
  then have "746 \<le> d / den" using assms(1) by (simp add: pos_le_divide_eq)
  then have "EXP_UNDERFLOW < d / den" using EXP_UNDERFLOW_facts(2) by linarith
  then show ?thesis by (simp add: expTerm_def)
qed

lemma oksLoop_far:
  assumes den: "\<And>i. \<exists>den. Fin 2 * ar * (Fin 2 * falloff i) * (Fin 2 * falloff i) = Fin den
      \<and> 0 < den \<and> den \<le> D"
    and "coordsWithin maxCoordinate bs"
    and "coordsWithin maxCoordinate (translateBy u v bs)"
    and far: "746 * D \<le> u * u + v * v"
  shows "\<exists>n'. oksLoop ar i (finitePose (translateBy u v bs)) (finitePose bs) (Fin 0, n)
     = (Fin 0, n')"
  using assms(2,3)
proof (induction bs arbitrary: i n)
  case Nil
  then show ?case by (simp add: finitePose_def translateBy_def)
next
  case (Cons p bs)
  obtain a b c where p: "p = (a, b, c)" by (cases p) auto
  have cw: "coordsWithin maxCoordinate bs" "coordsWithin maxCoordinate (translateBy u v bs)"
    using Cons.prems by (simp_all add: coordsWithin_def translateBy_def)
  have hd: "\<bar>a\<bar> \<le> maxCoordinate" "\<bar>b\<bar> \<le> maxCoordinate"
    "\<bar>a + u\<bar> \<le> maxCoordinate" "\<bar>b + v\<bar> \<le> maxCoordinate"
    using Cons.prems by (simp_all add: coordsWithin_def translateBy_def p)
  have unf: "finitePose (translateBy u v (p # bs))
      = \<lparr>xc = Fin (a + u), yc = Fin (b + v), score = Fin c\<rparr> # finitePose (translateBy u v bs)"
    "finitePose (p # bs) = \<lparr>xc = Fin a, yc = Fin b, score = Fin c\<rparr> # finitePose bs"
    by (simp_all add: finitePose_def translateBy_def p)
  show ?case
  proof (cases "Fin c < OKS_KEYPOINT_THRESHOLD")
    case True
    from Cons.IH[OF cw, of "Suc i" n] True show ?thesis
      by (simp add: unf)
  next
    case False
    obtain den where den': "Fin 2 * ar * (Fin 2 * falloff i) * (Fin 2 * falloff i) = Fin den"
      "0 < den" "den \<le> D"
      using den by blast
    have k: "keypointSimilarity ar i \<lparr>xc = Fin (a + u), yc = Fin (b + v), score = Fin c\<rparr>
        \<lparr>xc = Fin a, yc = Fin b, score = Fin c\<rparr> = Fin 0"
      using keypointSimilarity_translated[OF hd den'(1,2)] expTerm_zero[OF den'(2,3) far]
      by simp
    have sum: "Fin 0 + Fin 0 = Fin 0" by (simp add: plus_jsnum_def)
    from Cons.IH[OF cw, of "Suc i" "Suc n"] False show ?thesis
      by (simp add: unf k sum)
  qed
qed

lemma farTriples_translate:
  "farTriples i = translateBy (1000 * (real i - real j)) (1000 * (real i - real j)) (farTriples j)"
  by (simp add: farTriples_def translateBy_def algebra_simps)

lemma maxCoordinate_ge: "100000 \<le> maxCoordinate"
  unfolding maxCoordinate_def by simp

lemma farTriples_bounded: "i < 19 \<Longrightarrow> coordsWithin maxCoordinate (farTriples i)"
proof -
  assume "i < 19"
  then have i: "real i \<le> 18" by simp
  show ?thesis
    unfolding coordsWithin_def farTriples_def upt17
    using i maxCoordinate_ge by simp
qed

lemma farPerson_dissimilar:
  assumes "i < 19" "j < 19" "i \<noteq> j"
  shows "computeOKSSimilarityJS (farPerson i) (farPerson j) = Fin 0"
proof -
  let ?u = "1000 * (real i - real j)"
  have tr: "farTriples i = translateBy ?u ?u (farTriples j)" by (rule farTriples_translate)
  have cj: "coordsWithin maxCoordinate (farTriples j)" using assms(2) by (rule farTriples_bounded)
  have ci: "coordsWithin maxCoordinate (translateBy ?u ?u (farTriples j))"
    using farTriples_bounded[OF assms(1)] unfolding tr[symmetric] .
  have sq0: "0 \<le> maxCoordinate * maxCoordinate" by simp
  have "(6400::real) \<le> 4 * (maxCoordinate * maxCoordinate)"
  proof -
    have "maxCoordinate \<le> maxCoordinate * maxCoordinate"
      using maxCoordinate_facts(1) by (rule m_le_sq)
    with maxCoordinate_ge show ?thesis by linarith
  qed
  then have den: "\<exists>den. Fin 2 * (Fin 6400 + Fin (1 / 10 ^ 6)) * (Fin 2 * falloff k) * (Fin 2 * falloff k)
      = Fin den \<and> 0 < den \<and> den \<le> 2 * (6400 + 1 / 10 ^ 6) * (214 / 1000) * (214 / 1000)" for k
    by (intro denominator_finite) simp_all
  have "1 \<le> \<bar>real i - real j\<bar>" using assms(3) by linarith
  then have "1 * 1 \<le> \<bar>real i - real j\<bar> * \<bar>real i - real j\<bar>"
    by (intro mult_mono) simp_all
  then have sq: "1 \<le> (real i - real j) * (real i - real j)" by simp
  have far: "746 * (2 * (6400 + 1 / 10 ^ 6) * (214 / 1000) * (214 / 1000)) \<le> ?u * ?u + ?u * ?u"
  proof -
    have "?u * ?u = 1000000 * ((real i - real j) * (real i - real j))"
      by (simp add: algebra_simps)
    with sq have "1000000 \<le> ?u * ?u" by linarith
    moreover have "746 * (2 * (6400 + 1 / 10 ^ 6) * (214 / 1000) * (214 / 1000)) \<le> (2000000 :: real)"
      by simp
    ultimately show ?thesis by linarith
  qed
  obtain n' where loop: "oksLoop (Fin 6400 + Fin (1 / 10 ^ 6)) 0
      (finitePose (translateBy ?u ?u (farTriples j))) (finitePose (farTriples j)) (Fin 0, 0)
      = (Fin 0, n')"
    using oksLoop_far[OF den cj ci far, of 0 0] by blast
  have len: "length (finitePose (translateBy ?u ?u (farTriples j))) = length (finitePose (farTriples j))"
    by (simp add: finitePose_def translateBy_def)
  have area: "computeKeypointAreaJS (finitePose (farTriples j)) = Fin 6400"
    using farPerson_areaJS[of j] by (simp add: farPerson_def)
  have z: "Fin 0 / Fin (real n') = Fin 0" if "\<not> n' < OKS_MIN_KEYPOINTS"
    using that by (simp add: divide_jsnum_def OKS_MIN_KEYPOINTS_def)
  show ?thesis
    unfolding farPerson_def computeOKSSimilarityJS_def Let_def
    apply (subst (1 2) tr)
    unfolding area loop using len z by simp
qed


text \<open>
  C1: more detections than \<open>MAX_PERSONS\<close> in one frame, on an empty registry, should
  leave exactly \<open>MAX_PERSONS\<close> tracks. The code leaves one track for each detection: 19
  tracks for the 19 mutually dissimilar persons \<^const>\<open>farPerson\<close> \<open>0\<close>, ..., \<^const>\<open>farPerson\<close> \<open>18\<close>.
\<close>

theorem procesFrame_exceeds_capacity:
  "length (getTracks (procesFrame newTrackingManager (map farPerson [0..<19]) 0)) = 19
   \<and> TRACKING_MAX_PERSONS = 18"
  by (simp add: getTracks_def procesFrame_empty_registry newTrackingManager_def
      TRACKING_MAX_PERSONS_def)


section \<open>Smoothing filter: the guards\<close>

text \<open>
  Single precision: the binade of a number, and the narrowing of \<open>0\<close>, \<open>1/2\<close> and \<open>1/10\<close>.
  \<open>1/10\<close> is not a single-precision number; it becomes \<open>13421773 / 2^27\<close>, which is
  \<open>0.100000001490116...\<close>.
\<close>

lemma find_rev_upto:
  assumes "lo \<le> e" "e \<le> hi" "P e" "\<forall>e'. e < e' \<and> e' \<le> hi \<longrightarrow> \<not> P e'"
  shows "List.find P (rev [lo..hi]) = Some e"
  using assms
proof (induction "nat (hi - e)" arbitrary: hi)
  case 0
  then have "hi = e" by simp
  with 0 have "[lo..hi] = [lo..hi - 1] @ [hi]" by (simp add: upto_rec2)
  with \<open>hi = e\<close> 0 show ?case by simp
next
  case (Suc n)
  then have lt: "e < hi" by linarith
  with Suc have u: "[lo..hi] = [lo..hi - 1] @ [hi]" by (simp add: upto_rec2)
  have np: "\<not> P hi" using Suc.prems lt by simp
  have "List.find P (rev [lo..hi - 1]) = Some e"
    using Suc lt by (intro Suc.hyps) auto
  with u np show ?case by simp
qed

lemma powi_mono2: "a \<le> b \<Longrightarrow> (2 :: real) powi a \<le> 2 powi b"
  by (rule power_int_increasing) simp_all

lemma binade32_eq:
  assumes "- 126 \<le> e" "e \<le> 127" "2 powi e \<le> \<bar>r\<bar>" "\<bar>r\<bar> < 2 powi (e + 1)"
  shows "binade32 r = e"
proof -
  have "\<not> 2 powi e' \<le> \<bar>r\<bar>" if "e < e'" for e'
  proof -
    have "(2 :: real) powi (e + 1) \<le> 2 powi e'" using that by (intro powi_mono2) simp
    with assms(4) show ?thesis by linarith
  qed
  then have "List.find (\<lambda>e. 2 powi e \<le> \<bar>r\<bar>) (rev [- 126..127]) = Some e"
    using assms(1-3) by (intro find_rev_upto) auto
  then show ?thesis by (simp add: binade32_def)
qed

lemma binade32_subnormal:
  assumes "\<bar>r\<bar> < 2 powi (- 126)"
  shows "binade32 r = - 126"
proof -
  have "\<not> 2 powi e' \<le> \<bar>r\<bar>" if "- 126 \<le> e'" for e'
  proof -
    have "(2 :: real) powi (- 126) \<le> 2 powi e'" using that by (intro powi_mono2) simp
    with assms show ?thesis by linarith
  qed
  then have "List.find (\<lambda>e. 2 powi e \<le> \<bar>r\<bar>) (rev [- 126..127]) = None"
    unfolding find_None_iff set_rev set_upto by auto
  then show ?thesis by (simp only: binade32_def option.case)
qed

lemma fround_half: "fround (1 / 2) = Fin (1 / 2)"
proof -
  have b: "binade32 (1 / 2) = - 1"
    by (rule binade32_eq) (simp_all add: power_int_minus)
  show ?thesis
    by (simp add: fround_def b Let_def roundTiesToEven_def power_int_minus)
qed

lemma fround_tenth: "fround (1 / 10) = Fin (13421773 / 134217728)"
proof -
  have b: "binade32 (1 / 10) = - 4"
    by (rule binade32_eq) (simp_all add: power_int_minus)
  have f: "\<lfloor>(134217728 / 10 :: real)\<rfloor> = 13421772"
    by (simp add: floor_eq_iff)
  show ?thesis
    by (simp add: fround_def b Let_def roundTiesToEven_def power_int_minus f)
qed

lemma fround_0: "fround 0 = Fin 0"
  by (simp add: fround_def Let_def roundTiesToEven_def)


text \<open>
  Narrowing is idempotent: a number that has been narrowed is a single-precision number
  and is narrowed to itself. So the elements of a \<^verbatim>\<open>Float32Array\<close> are fixed by
  \<^const>\<open>Math_fround\<close>.
\<close>

lemma roundTiesToEven_int [simp]: "roundTiesToEven (of_int n) = n"
  by (simp add: roundTiesToEven_def)

lemma roundTiesToEven_ge:
  assumes "of_int a \<le> q"
  shows "a \<le> roundTiesToEven q"
proof -
  have "a \<le> \<lfloor>q\<rfloor>" using assms by (simp add: le_floor_iff)
  then show ?thesis by (auto simp: roundTiesToEven_def Let_def)
qed

lemma roundTiesToEven_le:
  assumes "q \<le> of_int b"
  shows "roundTiesToEven q \<le> b"
proof -
  have f: "\<lfloor>q\<rfloor> \<le> b" using assms by (simp add: floor_le_iff) 
  show ?thesis
  proof (cases "q - of_int \<lfloor>q\<rfloor> < 1 / 2")
    case True
    then show ?thesis using f by (simp add: roundTiesToEven_def Let_def)
  next
    case False
    then have "of_int \<lfloor>q\<rfloor> < q" by linarith
    then have "of_int \<lfloor>q\<rfloor> < (of_int b :: real)" using assms by linarith
    then have "\<lfloor>q\<rfloor> < b" by simp
    then show ?thesis by (auto simp: roundTiesToEven_def Let_def)
  qed
qed

lemma roundTiesToEven_abs_le:
  assumes "\<bar>q\<bar> \<le> of_int b"
  shows "\<bar>roundTiesToEven q\<bar> \<le> b"
proof -
  have "q \<le> of_int b" "of_int (- b) \<le> q" using assms by simp_all
  then have "roundTiesToEven q \<le> b" "- b \<le> roundTiesToEven q"
    using roundTiesToEven_le roundTiesToEven_ge by blast+
  then show ?thesis by simp
qed

lemma roundTiesToEven_abs_ge:
  assumes "of_int a \<le> \<bar>q\<bar>"
  shows "a \<le> \<bar>roundTiesToEven q\<bar>"
proof (cases "0 \<le> q")
  case True
  with assms have "of_int a \<le> q" by simp
  then have "a \<le> roundTiesToEven q" by (rule roundTiesToEven_ge)
  then show ?thesis by simp
next
  case False
  with assms have "q \<le> of_int (- a)" by simp
  then have "roundTiesToEven q \<le> - a" by (rule roundTiesToEven_le)
  then show ?thesis by simp
qed

lemma powi_less2: "a < b \<Longrightarrow> (2 :: real) powi a < 2 powi b"
  by (rule power_int_strict_increasing) simp_all

lemma binade32_top:
  assumes "2 powi 127 \<le> \<bar>r\<bar>"
  shows "binade32 r = 127"
proof -
  have "List.find (\<lambda>e. 2 powi e \<le> \<bar>r\<bar>) (rev [- 126..127]) = Some 127"
    using assms by (intro find_rev_upto) auto
  then show ?thesis by (simp only: binade32_def option.case)
qed

lemma binade32_cases:
  obtains (subnormal) "\<bar>r\<bar> < 2 powi (- 126)" "binade32 r = - 126"
  | (normal) "- 126 \<le> binade32 r" "binade32 r \<le> 127" "2 powi (binade32 r) \<le> \<bar>r\<bar>"
      "binade32 r < 127 \<longrightarrow> \<bar>r\<bar> < 2 powi (binade32 r + 1)"
proof (cases "\<bar>r\<bar> < 2 powi (- 126)")
  case True
  then show ?thesis using binade32_subnormal subnormal by blast
next
  case low: False
  show ?thesis
  proof (cases "2 powi 127 \<le> \<bar>r\<bar>")
    case True
    then show ?thesis using binade32_top[OF True] normal by simp
  next
    case False
    define e where "e = \<lfloor>log 2 \<bar>r\<bar>\<rfloor>"
    have pos: "0 < \<bar>r\<bar>"
    proof -
      have "(0 :: real) < 2 powi (- 126)" by simp
      with low show ?thesis by linarith
    qed
    have one: "1 < (2 :: real)" by simp
    have p: "(2 :: real) powr real_of_int k = 2 powi k" for k
      by (rule powr_real_of_int') simp_all
    have "2 powr real_of_int e \<le> \<bar>r\<bar> \<and> \<bar>r\<bar> < 2 powr real_of_int (e + 1)"
      unfolding e_def by (rule iffD1[OF floor_log_eq_powr_iff[OF pos one] refl])
    then have b: "2 powi e \<le> \<bar>r\<bar>" "\<bar>r\<bar> < 2 powi (e + 1)"
      unfolding p by blast+
    have lo: "- 126 \<le> e"
    proof (rule ccontr)
      assume "\<not> - 126 \<le> e"
      then have "e + 1 \<le> - 126" by simp
      then have "(2 :: real) powi (e + 1) \<le> 2 powi (- 126)" by (rule powi_mono2)
      with b(2) low show False by linarith
    qed
    have hi: "e < 127"
    proof (rule ccontr)
      assume "\<not> e < 127"
      then have "127 \<le> e" by simp
      then have "(2 :: real) powi 127 \<le> 2 powi e" by (rule powi_mono2)
      with b(1) False show False by linarith
    qed
    have "binade32 r = e" using lo hi b by (intro binade32_eq) simp_all
    then show ?thesis using lo hi b normal by simp
  qed
qed


lemma fround_fixed:
  assumes "fround r = Fin v"
  shows "fround v = Fin v"
proof -
  define e where "e = binade32 r"
  define u where "u = (2 :: real) powi (e - 23)"
  define n where "n = roundTiesToEven (r / u)"
  have upos: "0 < u" by (simp add: u_def)
  have v: "v = of_int n * u" and fin: "\<bar>v\<bar> < 2 ^ 128"
    using assms by (auto simp: fround_def Let_def e_def u_def n_def split: if_splits)
  have ue: "u * 2 ^ 23 = 2 powi e" "u * 2 ^ 24 = 2 powi (e + 1)"
  proof -
    have "(2 :: real) powi (e - 23) * 2 powi 23 = 2 powi (e - 23 + 23)"
      by (rule power_int_add[symmetric]) simp
    then show "u * 2 ^ 23 = 2 powi e" by (simp add: u_def)
    have "(2 :: real) powi (e - 23) * 2 powi 24 = 2 powi (e - 23 + 24)"
      by (rule power_int_add[symmetric]) simp
    then show "u * 2 ^ 24 = 2 powi (e + 1)" by (simp add: u_def add.commute)
  qed
  have av: "\<bar>v\<bar> = of_int \<bar>n\<bar> * u" using upos by (simp add: v abs_mult)
  have same: "fround v = Fin v" if "binade32 v = e"
  proof -
    have q: "v / u = of_int n" using upos by (simp add: v)
    have "fround v = (if 2 ^ 128 \<le> \<bar>of_int (roundTiesToEven (v / u)) * u\<bar>
        then (if of_int (roundTiesToEven (v / u)) * u < 0 then NInf else PInf)
        else Fin (of_int (roundTiesToEven (v / u)) * u))"
      unfolding fround_def Let_def that u_def[symmetric] ..
    also have "\<dots> = Fin v"
      unfolding q roundTiesToEven_int v[symmetric] using fin by simp
    finally show ?thesis .
  qed
  have up: "\<bar>n\<bar> \<le> 2 ^ k" if "\<bar>r\<bar> \<le> u * 2 ^ k" for k
  proof -
    have "\<bar>r / u\<bar> \<le> 2 ^ k" using that upos by (simp add: abs_divide pos_divide_le_eq mult.commute)
    then have "\<bar>r / u\<bar> \<le> of_int (2 ^ k)" by simp
    then show ?thesis unfolding n_def by (rule roundTiesToEven_abs_le)
  qed
  have low: "2 ^ k \<le> \<bar>n\<bar>" if "u * 2 ^ k \<le> \<bar>r\<bar>" for k
  proof -
    have "2 ^ k \<le> \<bar>r / u\<bar>" using that upos by (simp add: abs_divide pos_le_divide_eq mult.commute)
    then have "of_int (2 ^ k) \<le> \<bar>r / u\<bar>" by simp
    then show ?thesis unfolding n_def by (rule roundTiesToEven_abs_ge)
  qed
  have scale_le: "\<bar>v\<bar> \<le> u * 2 ^ k" if "\<bar>n\<bar> \<le> 2 ^ k" for k
  proof -
    have "(of_int \<bar>n\<bar> :: real) \<le> of_int (2 ^ k)" using that by (simp only: of_int_le_iff)
    then have "of_int \<bar>n\<bar> * u \<le> 2 ^ k * u" using upos by (intro mult_right_mono) simp_all
    then show ?thesis by (simp add: av mult.commute)
  qed
  have scale_ge: "u * 2 ^ k \<le> \<bar>v\<bar>" if "2 ^ k \<le> \<bar>n\<bar>" for k
  proof -
    have "(of_int (2 ^ k) :: real) \<le> of_int \<bar>n\<bar>" using that by (simp only: of_int_le_iff)
    then have "2 ^ k * u \<le> of_int \<bar>n\<bar> * u" using upos by (intro mult_right_mono) simp_all
    then show ?thesis by (simp add: av mult.commute)
  qed
  show ?thesis
  proof (cases r rule: binade32_cases)
    case subnormal
    then have e: "e = - 126" by (simp add: e_def)
    have "\<bar>r\<bar> \<le> 2 powi e" using subnormal(1) unfolding e by (rule less_imp_le)
    then have r23: "\<bar>r\<bar> \<le> u * 2 ^ 23" unfolding ue(1) .
    have "\<bar>v\<bar> \<le> u * 2 ^ 23" by (rule scale_le[OF up[OF r23]])
    then have vb: "\<bar>v\<bar> \<le> 2 powi (- 126)" unfolding ue(1) e .
    show ?thesis
    proof (cases "\<bar>v\<bar> < 2 powi (- 126)")
      case True
      then have "binade32 v = e" unfolding e by (rule binade32_subnormal)
      then show ?thesis by (rule same)
    next
      case False
      with vb have eq: "\<bar>v\<bar> = 2 powi (- 126)" by linarith
      have "(2 :: real) powi (- 126) < 2 powi (- 126 + 1)" by (rule powi_less2) simp
      then have "binade32 v = - 126"
        unfolding eq[symmetric] using eq by (intro binade32_eq) simp_all
      then have "binade32 v = e" unfolding e .
      then show ?thesis by (rule same)
    qed
  next
    case normal
    have "2 powi e \<le> \<bar>r\<bar>" using normal(3) unfolding e_def .
    then have r23: "u * 2 ^ 23 \<le> \<bar>r\<bar>" unfolding ue(1) .
    have vl: "2 powi e \<le> \<bar>v\<bar>" using scale_ge[OF low[OF r23]] unfolding ue(1) .
    have er: "- 126 \<le> e" "e \<le> 127" using normal(1,2) by (simp_all add: e_def)
    show ?thesis
    proof (cases "e = 127")
      case True
      have "binade32 v = 127" using vl unfolding True by (rule binade32_top)
      then have "binade32 v = e" unfolding True .
      then show ?thesis by (rule same)
    next
      case False
      with er have e126: "e < 127" by simp
      then have "\<bar>r\<bar> < 2 powi (e + 1)" using normal(4) unfolding e_def by blast
      then have "\<bar>r\<bar> \<le> u * 2 ^ 24" unfolding ue(2) by (rule less_imp_le)
      then have n24: "\<bar>n\<bar> \<le> 2 ^ 24" by (rule up)
      have vu: "\<bar>v\<bar> \<le> 2 powi (e + 1)" using scale_le[OF n24] unfolding ue(2) .
      show ?thesis
      proof (cases "\<bar>v\<bar> < 2 powi (e + 1)")
        case True
        have "binade32 v = e" using er vl True by (intro binade32_eq) simp_all
        then show ?thesis by (rule same)
      next
        case F2: False
        with vu have eq: "\<bar>v\<bar> = 2 powi (e + 1)" by linarith
        have lt: "\<bar>v\<bar> < 2 powi (e + 1 + 1)" unfolding eq by (rule powi_less2) simp
        have b: "binade32 v = e + 1"
          using er e126 lt by (intro binade32_eq) (simp_all add: eq)
        have "of_int \<bar>n\<bar> * u = u * 2 ^ 24" unfolding av[symmetric] eq ue(2) ..
        then have "(of_int \<bar>n\<bar> :: real) = 2 ^ 24" using upos by simp
        then have "(of_int \<bar>n\<bar> :: real) = of_int (2 ^ 24)" by simp
        then have na: "\<bar>n\<bar> = 2 ^ 24" by (simp only: of_int_eq_iff)
        then obtain m where m: "n = 2 * m" by (cases "0 \<le> n") (auto intro: that[of "2 ^ 23"] that[of "- (2 ^ 23)"])
        have u2: "2 powi (e + 1 - 23) = 2 * u"
        proof -
          have "(2 :: real) powi (e - 23 + 1) = 2 powi (e - 23) * 2"
            by (rule power_int_add_1) simp
          then show ?thesis by (simp add: u_def add.commute mult.commute)
        qed
        have q: "v / (2 * u) = of_int m" using upos by (simp add: v m)
        have vm: "of_int m * (2 * u) = v" by (simp add: v m)
        have "fround v = (if 2 ^ 128 \<le> \<bar>of_int (roundTiesToEven (v / (2 * u))) * (2 * u)\<bar>
            then (if of_int (roundTiesToEven (v / (2 * u))) * (2 * u) < 0 then NInf else PInf)
            else Fin (of_int (roundTiesToEven (v / (2 * u))) * (2 * u)))"
          unfolding fround_def Let_def b u2 ..
        also have "\<dots> = Fin v"
          unfolding q roundTiesToEven_int vm using fin by simp
        finally show ?thesis .
      qed
    qed
  qed
qed

lemma Math_fround_idem: "Math_fround (Math_fround x) = Math_fround x"
proof (cases x)
  case (Fin r)
  show ?thesis
  proof (cases "fround r")
    case (Fin v)
    then show ?thesis using fround_fixed[OF Fin] \<open>x = Fin r\<close> by simp
  qed (simp_all add: \<open>x = Fin r\<close>)
qed simp_all


lemma Float32Array_from_fixed: "\<forall>v\<in>set (Float32Array_from xs). Math_fround v = v"
  by (simp add: Float32Array_from_def Math_fround_idem)

text \<open>
  C5, as the specification states it: with a buffer of fewer than 51 values, or with
  screen dimensions that are not numbers or not positive, the function returns its input
  unchanged. For a short buffer it returns a fresh buffer of 51 zeros instead; with a
  screen width of \<open>0\<close> it returns a \<^verbatim>\<open>Float32Array\<close> copy, in which the value \<open>0.1\<close> of a
  \<^verbatim>\<open>Float64Array\<close> has become \<open>13421773 / 2^27\<close>.
\<close>

theorem smoothKeypoints_input_changed:
  "smoothKeypoints (Some [Fin 1]) Map.empty (Number (Fin 100)) (Number (Fin 100))
     = (replicate 51 (Fin 0), Map.empty)
   \<and> fst (smoothKeypoints (Some [Fin 1]) Map.empty (Number (Fin 100)) (Number (Fin 100)))
       \<noteq> [Fin 1]
   \<and> smoothKeypoints (Some (replicate 51 (Fin (1 / 10)))) Map.empty (Number (Fin 0))
        (Number (Fin 100))
     = (replicate 51 (Fin (13421773 / 134217728)), Map.empty)
   \<and> fst (smoothKeypoints (Some (replicate 51 (Fin (1 / 10)))) Map.empty (Number (Fin 0))
        (Number (Fin 100)))
       \<noteq> replicate 51 (Fin (1 / 10))"
proof -
  have "length (replicate 51 (Fin 0 :: jsnum)) \<noteq> length [Fin 1 :: jsnum]" by simp
  then have a: "replicate 51 (Fin 0) \<noteq> [Fin 1]" by fastforce
  have z: "Fin 0 \<le> Fin 0" by (simp add: less_eq_jsnum_def)
  have b: "smoothKeypoints (Some (replicate 51 (Fin (1 / 10)))) Map.empty (Number (Fin 0))
        (Number (Fin 100))
     = (replicate 51 (Fin (13421773 / 134217728)), Map.empty)"
    using z by (simp add: smoothKeypoints_def Float32Array_from_def fround_tenth)
  have c: "replicate 51 (Fin (13421773 / 134217728)) \<noteq> replicate 51 (Fin (1 / 10))"
    by (simp add: replicate_eq_replicate)
  show ?thesis
    unfolding b using a c by (simp add: smoothKeypoints_def)
qed

text \<open>
  C5, amended: when the buffer is absent or has fewer than 51 values,
  \<^const>\<open>smoothKeypoints\<close> returns a buffer of 51 zeros; when the buffer has at least 51
  values and a screen dimension is not of type number, or is \<open>\<le> 0\<close>, it returns a new
  \<^verbatim>\<open>Float32Array\<close> of the values of the input, each narrowed to single precision. These are
  the values of the input itself when each of them is a single-precision number already
  (one that \<^const>\<open>Math_fround\<close> leaves as it is), as are the elements of a \<^verbatim>\<open>Float32Array\<close>. In
  both cases the filter state is left as it was, and nothing fails.
\<close>

theorem smoothKeypoints_guards:
  "((case keypointsArg of None \<Rightarrow> True | Some ks \<Rightarrow> length ks < 51) \<longrightarrow>
      smoothKeypoints keypointsArg lastKeypoints screenWidth screenHeight
        = (replicate 51 (Fin 0), lastKeypoints))
   \<and> (51 \<le> length ks
        \<and> (screenWidth = NotANumberType \<or> screenHeight = NotANumberType
            \<or> (\<exists>w h. screenWidth = Number w \<and> screenHeight = Number h
                  \<and> (w \<le> Fin 0 \<or> h \<le> Fin 0))) \<longrightarrow>
      smoothKeypoints (Some ks) lastKeypoints screenWidth screenHeight
        = (map Math_fround ks, lastKeypoints)
      \<and> ((\<forall>v\<in>set ks. Math_fround v = v) \<longrightarrow>
           smoothKeypoints (Some ks) lastKeypoints screenWidth screenHeight
             = (ks, lastKeypoints)))"
proof -
  have same: "map Math_fround ks = ks" if "\<forall>v\<in>set ks. Math_fround v = v"
    using that by (simp add: map_idI)
  show ?thesis
    using same
    by (auto simp: smoothKeypoints_def Float32Array_from_def split: option.splits jsvalue.splits)
qed

theorem smoothKeypoints_guards_witness:
  "smoothKeypoints (Some [Fin 1]) Map.empty (Number (Fin 100)) (Number (Fin 100))
     = (replicate 51 (Fin 0), Map.empty)
   \<and> 51 \<le> length (replicate 51 (Fin (1 / 2)))
   \<and> Math_fround (Fin (1 / 2)) = Fin (1 / 2)
   \<and> smoothKeypoints (Some (replicate 51 (Fin (1 / 2)))) Map.empty (Number (Fin 0))
        (Number (Fin 100)) = (replicate 51 (Fin (1 / 2)), Map.empty)
   \<and> smoothKeypoints (Some (replicate 51 (Fin (1 / 2)))) Map.empty NotANumberType
        (Number (Fin 100)) = (replicate 51 (Fin (1 / 2)), Map.empty)
   \<and> 51 \<le> length (replicate 51 (Fin (1 / 10)))
   \<and> smoothKeypoints (Some (replicate 51 (Fin (1 / 10)))) Map.empty (Number (Fin 100))
        (Number (Fin (- 1)))
       = (replicate 51 (Fin (13421773 / 134217728)), Map.empty)"
proof -
  have a: "smoothKeypoints (Some [Fin 1]) Map.empty (Number (Fin 100)) (Number (Fin 100))
     = (replicate 51 (Fin 0), Map.empty)"
    using smoothKeypoints_guards [of "Some [Fin 1]" Map.empty "Number (Fin 100)" "Number (Fin 100)"]
    by simp
  have l: "51 \<le> length (replicate 51 (Fin (1 / 2)))" by simp
  have f: "Math_fround (Fin (1 / 2)) = Fin (1 / 2)" by (simp add: fround_half)
  then have all: "\<forall>v\<in>set (replicate 51 (Fin (1 / 2))). Math_fround v = v" by simp
  have z: "Fin 0 \<le> Fin 0" "Fin (- 1) \<le> Fin 0" by (simp_all add: less_eq_jsnum_def)
  have b: "smoothKeypoints (Some (replicate 51 (Fin (1 / 2)))) Map.empty (Number (Fin 0))
        (Number (Fin 100)) = (replicate 51 (Fin (1 / 2)), Map.empty)"
    using smoothKeypoints_guards [of "None" Map.empty "Number (Fin 0)" "Number (Fin 100)"
        "replicate 51 (Fin (1 / 2))"] l z(1) all
    by blast
  have c: "smoothKeypoints (Some (replicate 51 (Fin (1 / 2)))) Map.empty NotANumberType
        (Number (Fin 100)) = (replicate 51 (Fin (1 / 2)), Map.empty)"
    using smoothKeypoints_guards [of "None" Map.empty NotANumberType "Number (Fin 100)"
        "replicate 51 (Fin (1 / 2))"] l all
    by blast
  have l': "51 \<le> length (replicate 51 (Fin (1 / 10)))" by simp
  have "smoothKeypoints (Some (replicate 51 (Fin (1 / 10)))) Map.empty (Number (Fin 100))
        (Number (Fin (- 1)))
       = (map Math_fround (replicate 51 (Fin (1 / 10))), Map.empty)"
    using smoothKeypoints_guards [of "None" Map.empty "Number (Fin 100)" "Number (Fin (- 1))"
        "replicate 51 (Fin (1 / 10))"] l' z(2)
    by blast
  then have d: "smoothKeypoints (Some (replicate 51 (Fin (1 / 10)))) Map.empty (Number (Fin 100))
        (Number (Fin (- 1)))
       = (replicate 51 (Fin (13421773 / 134217728)), Map.empty)"
    by (simp add: fround_tenth)
  from a l f b c l' d show ?thesis by blast
qed


section \<open>Form analysis: the lift type\<close>

lemma toLowerCase_curl: "toLowerCase ''curl'' = ''curl''"
  by (simp add: toLowerCase_def)

lemma toLowerCase_Squat: "toLowerCase ''Squat'' = ''squat''"
  by code_simp

text \<open>
  C2, as the specification states it: every string that is not one of \<open>squat\<close>, \<open>bench\<close>,
  \<open>deadlift\<close> gives the "select a lift type" result with score \<open>0\<close>. The string \<open>curl\<close> gives
  an empty feedback list with score \<open>100\<close>.
\<close>

theorem analyzeLiftForm_other_string_scores_100:
  "analyzeLiftForm (replicate 51 (Fin 0)) (Str ''curl'') (Fin 100) (Fin 100) None None
     = \<lparr>feedback = [], formScore = 100, liftType = ''curl''\<rparr>"
  by (simp add: analyzeLiftForm_def liftAnalysis_def finishAnalysis_def toLowerCase_curl Let_def)

text \<open>
  C2, amended: \<^const>\<open>analyzeLiftForm\<close> returns the neutral result (the message "Select a lift
  type", score \<open>0\<close>, lift type \<open>unknown\<close>) exactly for a lift type that is \<^verbatim>\<open>undefined\<close>, the
  empty string or an array. For any other string whose lower-case form is none of
  \<open>squat\<close>, \<open>bench\<close>, \<open>deadlift\<close> it returns no feedback, score \<open>100\<close> and the string itself.
\<close>

theorem analyzeLiftForm_lift_type:
  "(liftTypeArg = Undefined \<or> liftTypeArg = Str [] \<or> (\<exists>xs. liftTypeArg = StrArray xs) \<longrightarrow>
      analyzeLiftForm kps liftTypeArg screenWidth screenHeight userHeight userWeight
        = \<lparr>feedback = [SelectLiftType], formScore = 0, liftType = ''unknown''\<rparr>)
   \<and> (lift \<noteq> [] \<and> toLowerCase lift \<noteq> ''squat'' \<and> toLowerCase lift \<noteq> ''bench''
        \<and> toLowerCase lift \<noteq> ''deadlift'' \<longrightarrow>
      analyzeLiftForm kps (Str lift) screenWidth screenHeight userHeight userWeight
        = \<lparr>feedback = [], formScore = 100, liftType = lift\<rparr>)"
  by (auto simp: analyzeLiftForm_def liftAnalysis_def finishAnalysis_def Let_def)

theorem analyzeLiftForm_lift_type_witness:
  "analyzeLiftForm (replicate 51 (Fin 0)) Undefined (Fin 100) (Fin 100) None None
     = \<lparr>feedback = [SelectLiftType], formScore = 0, liftType = ''unknown''\<rparr>
   \<and> analyzeLiftForm (replicate 51 (Fin 0)) (Str []) (Fin 100) (Fin 100) None None
     = \<lparr>feedback = [SelectLiftType], formScore = 0, liftType = ''unknown''\<rparr>
   \<and> analyzeLiftForm (replicate 51 (Fin 0)) (Str ''curl'') (Fin 100) (Fin 100) None None
     = \<lparr>feedback = [], formScore = 100, liftType = ''curl''\<rparr>"
proof -
  have c: "''curl'' \<noteq> [] \<and> toLowerCase ''curl'' \<noteq> ''squat'' \<and> toLowerCase ''curl'' \<noteq> ''bench''
        \<and> toLowerCase ''curl'' \<noteq> ''deadlift''"
    by (simp add: toLowerCase_curl)
  show ?thesis
    using analyzeLiftForm_lift_type [of Undefined "replicate 51 (Fin 0)" "Fin 100" "Fin 100" None None "''curl''"]
      analyzeLiftForm_lift_type [of "Str []" "replicate 51 (Fin 0)" "Fin 100" "Fin 100" None None "''curl''"]
      c
    by blast
qed


section \<open>Form analysis: the feedback list and the score\<close>



































end
